theory Spec2Isabelle
  imports Main
begin

section \<open>The text controller for a bus of FEETECH STS servos\<close>

text \<open>
  A shallow embedding of \<^verbatim>\<open>FeetechSTSTestUART.ino\<close>: the command parser
  \<^verbatim>\<open>processCommand\<close> and its twenty handlers. A handler reads its argument tail with the
  Arduino \<^verbatim>\<open>String\<close> primitives, calls the servo library object \<^verbatim>\<open>st\<close> and prints
  lines on \<^verbatim>\<open>Serial\<close>. The model returns everything a handler does as one ordered trace
  of events: bus calls with the value the library returned, printed lines, and delays.
\<close>

subsection \<open>C integers\<close>

text \<open>
  On the ESP32 \<^verbatim>\<open>int\<close> and \<^verbatim>\<open>long\<close> have 32 bits. Values are HOL integers; the casts of
  the source are written out as the reductions they perform.
\<close>

definition INT_MAX :: int where
  "INT_MAX = 2147483647"

definition INT_MIN :: int where
  "INT_MIN = - 2147483648"

text \<open>An \<^verbatim>\<open>int\<close> passed for an \<^verbatim>\<open>unsigned int\<close> parameter.\<close>

definition unsigned :: "int \<Rightarrow> int" where
  "unsigned x = (if x < 0 then x + 4294967296 else x)"

definition uint8_t :: "int \<Rightarrow> int" where
  "uint8_t x = x mod 256"

definition uint16_t :: "int \<Rightarrow> int" where
  "uint16_t x = x mod 65536"

definition int16_t :: "int \<Rightarrow> int" where
  "int16_t x = (x + 32768) mod 65536 - 32768"

subsection \<open>The Arduino String primitives the sketch uses\<close>

text \<open>
  A \<^verbatim>\<open>String\<close> is its list of characters (the text protocol carries no NUL byte).
  \<^verbatim>\<open>isspace\<close> is the C predicate: space, and the controls 9 to 13.
\<close>

definition isspace :: "char \<Rightarrow> bool" where
  "isspace c = (c \<in> set [CHR '' '', CHR 0x09, CHR 0x0A, CHR 0x0B, CHR 0x0C, CHR 0x0D])"

definition isdigit :: "char \<Rightarrow> bool" where
  "isdigit c = (c \<in> set ''0123456789'')"

definition digitVal :: "char \<Rightarrow> int" where
  "digitVal c = (case map_of (zip ''0123456789'' [0, 1, 2, 3, 4, 5, 6, 7, 8, 9]) c of
                   Some d \<Rightarrow> d | None \<Rightarrow> 0)"

definition toupper :: "char \<Rightarrow> char" where
  "toupper c = (case map_of (zip ''abcdefghijklmnopqrstuvwxyz'' ''ABCDEFGHIJKLMNOPQRSTUVWXYZ'') c of
                  Some u \<Rightarrow> u | None \<Rightarrow> c)"

definition toUpperCase :: "string \<Rightarrow> string" where
  "toUpperCase s = map toupper s"

text \<open>\<^verbatim>\<open>trim()\<close> drops the white space at both ends.\<close>

definition trim :: "string \<Rightarrow> string" where
  "trim s = rev (dropWhile isspace (rev (dropWhile isspace s)))"

text \<open>
  \<^verbatim>\<open>strchr\<close>: the offset of the first occurrence of a character.
  \<^verbatim>\<open>indexOf(ch, fromIndex)\<close> takes an unsigned start: a start at or past the length
  (so also a negative one, converted) gives -1.
\<close>

fun strchr :: "string \<Rightarrow> char \<Rightarrow> nat option" where
  "strchr [] ch = None"
| "strchr (c # cs) ch = (if c = ch then Some 0 else map_option Suc (strchr cs ch))"

definition indexOfFrom :: "string \<Rightarrow> char \<Rightarrow> int \<Rightarrow> int" where
  "indexOfFrom s ch fromIndex =
     (if unsigned fromIndex \<ge> int (length s) then - 1
      else case strchr (drop (nat fromIndex) s) ch of
             None \<Rightarrow> - 1
           | Some k \<Rightarrow> fromIndex + int k)"

definition indexOf :: "string \<Rightarrow> char \<Rightarrow> int" where
  "indexOf s ch = indexOfFrom s ch 0"

text \<open>
  \<^verbatim>\<open>substring(left, right)\<close> on unsigned indices: swapped when left exceeds right, empty
  when left is at or past the end, right cut at the length.
\<close>

definition substring :: "string \<Rightarrow> int \<Rightarrow> int \<Rightarrow> string" where
  "substring s left right =
     (let l0 = unsigned left; r0 = unsigned right;
          l = (if l0 > r0 then r0 else l0);
          r = (if l0 > r0 then l0 else r0);
          len = int (length s)
      in if l \<ge> len then []
         else take (nat ((if r > len then len else r) - l)) (drop (nat l) s))"

definition substringFrom :: "string \<Rightarrow> int \<Rightarrow> string" where
  "substringFrom s left = substring s left (int (length s))"

text \<open>
  \<^verbatim>\<open>toInt()\<close> is \<^verbatim>\<open>atol\<close>: skip white space, an optional sign, then the leading
  decimal digits; no digit gives 0. The C library of the ESP32 toolchain returns
  \<^verbatim>\<open>strtol(s, NULL, 10)\<close>, which saturates at the ends of \<^verbatim>\<open>long\<close>.
\<close>

fun leadingDigits :: "string \<Rightarrow> int \<Rightarrow> int" where
  "leadingDigits [] acc = acc"
| "leadingDigits (c # cs) acc =
     (if isdigit c then leadingDigits cs (acc * 10 + digitVal c) else acc)"

definition saturate :: "int \<Rightarrow> int" where
  "saturate x = (if x > INT_MAX then INT_MAX else if x < INT_MIN then INT_MIN else x)"

definition toInt :: "string \<Rightarrow> int" where
  "toInt s =
     (case dropWhile isspace s of
        [] \<Rightarrow> 0
      | c # cs \<Rightarrow>
          if c = CHR ''-'' then saturate (- leadingDigits cs 0)
          else if c = CHR ''+'' then saturate (leadingDigits cs 0)
          else saturate (leadingDigits (c # cs) 0))"

text \<open>\<^verbatim>\<open>Serial.print(int)\<close>: the decimal digits, with a minus sign below zero.\<close>

fun decNat :: "nat \<Rightarrow> string" where
  "decNat n = (if n < 10 then [''0123456789'' ! n]
               else decNat (n div 10) @ [''0123456789'' ! (n mod 10)])"

definition printInt :: "int \<Rightarrow> string" where
  "printInt n = (if n < 0 then CHR ''-'' # decNat (nat (- n)) else decNat (nat n))"

subsection \<open>The servo library and the trace of a command\<close>

text \<open>
  The registers the sketch names, and the calls it makes on \<^verbatim>\<open>SMS_STS st\<close>, with the
  arguments as the library function receives them: after the casts written at the call
  and the conversion to the type of the parameter. \<^verbatim>\<open>Ping\<close> takes an 8-bit ID
  (\<^verbatim>\<open>int Ping(u8 ID)\<close>), so the \<^verbatim>\<open>int\<close> passed to it is narrowed; the read calls
  \<^verbatim>\<open>ReadPos\<close>, \<^verbatim>\<open>ReadLoad\<close>, \<^verbatim>\<open>ReadVoltage\<close> and \<^verbatim>\<open>ReadTemper\<close> take an
  \<^verbatim>\<open>int\<close>. \<^verbatim>\<open>SyncWritePosEx\<close> gets the first \<^verbatim>\<open>n\<close> cells of each of its four
  arrays.
\<close>

datatype reg = SMS_STS_ID | SMS_STS_MODE

datatype bus_call =
    Ping int
  | UnLockEprom int
  | LockEprom int
  | WriteByte int reg int
  | EnableTorque int int
  | WheelMode int
  | ReadMode int
  | WritePosEx int int int int
  | SyncWritePosEx "int list" int "int list" "int list" "int list"
  | ReadPos int
  | WriteSpe int int
  | ReadSpeed int
  | ReadLoad int
  | ReadVoltage int
  | ReadTemper int

text \<open>
  An event is a bus call with the value it returned, a line printed on \<^verbatim>\<open>Serial\<close>
  (the \<^verbatim>\<open>print\<close> calls before a \<^verbatim>\<open>println\<close> joined into its line), a delay in
  microseconds, or the point where a signed counter overflows: C leaves what follows
  undefined, so the trace ends there.
\<close>

datatype event =
    Bus bus_call int
  | Out string
  | Delay nat
  | SignedOverflow

text \<open>
  The library is opaque: the value a call returns is any function of the events so far
  and the call.
\<close>

type_synonym bus = "event list \<Rightarrow> bus_call \<Rightarrow> int"

definition call :: "bus \<Rightarrow> bus_call \<Rightarrow> event list \<Rightarrow> int \<times> event list" where
  "call st c tr = (st tr c, tr @ [Bus c (st tr c)])"

definition println :: "string \<Rightarrow> event list \<Rightarrow> event list" where
  "println s tr = tr @ [Out s]"

definition delayMicroseconds :: "nat \<Rightarrow> event list \<Rightarrow> event list" where
  "delayMicroseconds us tr = tr @ [Delay us]"

definition delay :: "nat \<Rightarrow> event list \<Rightarrow> event list" where
  "delay ms tr = tr @ [Delay (1000 * ms)]"

subsection \<open>Discovery: PING and SCAN_ID\<close>

definition handlePing :: "bus \<Rightarrow> string \<Rightarrow> event list" where
  "handlePing st args =
     (let id = toInt args in
      if id < 0 \<or> id > 253 then println ''ERROR: Invalid ID'' []
      else
        let (pingRes, tr) = call st (Ping (uint8_t id)) []
        in println (if pingRes \<noteq> - 1 then ''OK'' else ''ERROR: Ping fail'') tr)"

text \<open>
  The window of a scan, as \<^verbatim>\<open>handleScanID\<close> and \<^verbatim>\<open>handleScanPos\<close> both compute it:
  the defaults 0 and 253, the bounds read from the tail, \<^verbatim>\<open>from\<close> raised to 0,
  \<^verbatim>\<open>to\<close> lowered to 253, and then the two swapped when \<^verbatim>\<open>to < from\<close>.
\<close>

definition scanParse :: "string \<Rightarrow> int \<times> int" where
  "scanParse args =
     (if length args \<noteq> 0 then
        let sp = indexOf args CHR '' '' in
        if sp < 0 then (toInt args, 253)
        else (toInt (substring args 0 sp), toInt (substringFrom args (sp + 1)))
      else (0, 253))"

definition scanNormalize :: "int \<times> int \<Rightarrow> int \<times> int" where
  "scanNormalize ft =
     (let from = (if fst ft < 0 then 0 else fst ft);
          to = (if snd ft > 253 then 253 else snd ft)
      in if to < from then (to, from) else (from, to))"

text \<open>
  One turn of the loop of \<^verbatim>\<open>handleScanID\<close>, for the counter \<open>sid\<close> (the source's
  \<^verbatim>\<open>id\<close>): the new count (\<open>None\<close> when \<^verbatim>\<open>foundCount++\<close> overflows) and the trace.
  The ping goes to the low 8 bits of the counter.
\<close>

definition scanIDBody :: "bus \<Rightarrow> int \<Rightarrow> int \<Rightarrow> event list \<Rightarrow> int option \<times> event list" where
  "scanIDBody st sid foundCount tr =
     (let tr1 = delayMicroseconds 300 tr;
          (resp, tr2) = call st (Ping (uint8_t sid)) tr1
      in if resp \<noteq> - 1 then
           let tr3 = println (''FOUND ID '' @ printInt resp) tr2
           in if foundCount = INT_MAX then (None, tr3)
              else (Some (foundCount + 1), delayMicroseconds 200 tr3)
         else (Some foundCount, tr2))"

text \<open>
  \<^verbatim>\<open>for (int id = from; id <= to; id++)\<close> and the two prints after it. The increment
  at \<^verbatim>\<open>INT_MAX\<close> overflows.
\<close>

function scanIDLoop :: "bus \<Rightarrow> int \<Rightarrow> int \<Rightarrow> int \<Rightarrow> event list \<Rightarrow> event list" where
  "scanIDLoop st sid to foundCount tr =
     (if sid \<le> to then
        (case scanIDBody st sid foundCount tr of
           (None, tr') \<Rightarrow> tr' @ [SignedOverflow]
         | (Some foundCount', tr') \<Rightarrow>
             if sid = INT_MAX then tr' @ [SignedOverflow]
             else scanIDLoop st (sid + 1) to foundCount' tr')
      else println (''FOUND_TOTAL '' @ printInt foundCount) tr)"
  by pat_completeness auto
termination
  by (relation "measure (\<lambda>(st, sid, to, foundCount, tr). nat (to - sid + 1))") auto

declare scanIDLoop.simps [simp del]

definition handleScanID :: "bus \<Rightarrow> string \<Rightarrow> event list" where
  "handleScanID st args =
     (let (from, to) = scanNormalize (scanParse args)
      in scanIDLoop st from to 0
           (println (''SCAN_ID from '' @ printInt from @ '' to '' @ printInt to) []))"

subsection \<open>Identity change: SET_ID\<close>

text \<open>\<^verbatim>\<open>bool writeOk = st.writeByte(...)\<close>: an \<^verbatim>\<open>int\<close> becomes true when it is not 0.\<close>

definition handleSetID :: "bus \<Rightarrow> string \<Rightarrow> event list" where
  "handleSetID st args =
     (let spaceIdx = indexOf args CHR '' '' in
      if spaceIdx < 0 then println ''ERROR: SET_ID usage: SET_ID <oldId> <newId>'' []
      else
        let oldId = toInt (substring args 0 spaceIdx);
            newId = toInt (substringFrom args (spaceIdx + 1))
        in if oldId < 0 \<or> oldId > 253 \<or> newId < 0 \<or> newId > 253
           then println ''ERROR: Invalid ID range'' []
           else
             let (u, tr1) = call st (UnLockEprom (uint8_t oldId)) [];
                 (w, tr2) = call st (WriteByte (uint8_t oldId) SMS_STS_ID (uint8_t newId)) tr1;
                 writeOk = (w \<noteq> 0);
                 (l, tr3) = call st (LockEprom (uint8_t newId)) tr2
             in println (if writeOk then ''OK'' else ''ERROR: write ID fail'') tr3)"

subsection \<open>Mode control: SET_SERVO, SET_WHEEL, READ_MODE\<close>

definition handleSetServo :: "bus \<Rightarrow> string \<Rightarrow> event list" where
  "handleSetServo st args =
     (let id = toInt args in
      if id < 0 \<or> id > 253 then println ''ERROR: invalid ID'' []
      else
        let (r, tr1) = call st (WriteByte (uint8_t id) SMS_STS_MODE 0) []
        in if r \<noteq> - 1 then
             let (e, tr2) = call st (EnableTorque (uint8_t id) 1) tr1
             in println ''OK'' tr2
           else println ''ERROR'' tr1)"

definition handleSetWheel :: "bus \<Rightarrow> string \<Rightarrow> event list" where
  "handleSetWheel st args =
     (let id = toInt args in
      if id < 0 \<or> id > 253 then println ''ERROR: invalid ID'' []
      else
        let (r, tr) = call st (WheelMode (uint8_t id)) []
        in println (if r \<noteq> - 1 then ''OK'' else ''ERROR'') tr)"

definition handleReadMode :: "bus \<Rightarrow> string \<Rightarrow> event list" where
  "handleReadMode st args =
     (let id = toInt args in
      if id < 0 \<or> id > 253 then println ''ERROR: invalid ID'' []
      else
        let (m, tr) = call st (ReadMode (uint8_t id)) []
        in if m \<noteq> - 1 then println (''MODE '' @ printInt m) tr
           else println ''ERROR'' tr)"

subsection \<open>Position control: MOVE, SYNC_MOVE, READ_POS, SCAN_POS\<close>

text \<open>
  The two tests \<^verbatim>\<open>if (x < lo) x = lo; if (x > hi) x = hi;\<close> that the handlers
  apply to a position, a speed and an acceleration.
\<close>

definition clamp :: "int \<Rightarrow> int \<Rightarrow> int \<Rightarrow> int" where
  "clamp lo hi x = (let x1 = (if x < lo then lo else x) in if x1 > hi then hi else x1)"

definition handleMove :: "bus \<Rightarrow> string \<Rightarrow> event list" where
  "handleMove st args =
     (let sp1 = indexOf args CHR '' '';
          sp2 = indexOfFrom args CHR '' '' (sp1 + 1);
          sp3 = indexOfFrom args CHR '' '' (sp2 + 1)
      in if sp1 < 0 \<or> sp2 < 0 \<or> sp3 < 0
         then println ''ERROR: MOVE usage: MOVE <id> <pos> <speed> <acc>'' []
         else
           let id = toInt (substring args 0 sp1);
               pos = toInt (substring args (sp1 + 1) sp2);
               speed = toInt (substring args (sp2 + 1) sp3);
               acc = toInt (substringFrom args (sp3 + 1))
           in if id < 0 \<or> id > 253 then println ''ERROR: invalid ID'' []
              else
                let pos = clamp 0 4095 pos;
                    speed = clamp 0 4095 speed;
                    acc = clamp 0 255 acc;
                    (r, tr) = call st (WritePosEx (uint8_t id) (int16_t pos) (uint16_t speed)
                                         (uint8_t acc)) []
                in println ''OK'' tr)"

text \<open>
  One tuple of SYNC_MOVE cut off the front of \<^verbatim>\<open>remain\<close>: the four fields as
  integers and the rest of the text, or \<open>None\<close> where the source prints
  \<^verbatim>\<open>not enough arguments\<close>.
\<close>

definition syncMoveTuple :: "string \<Rightarrow> (int \<times> int \<times> int \<times> int \<times> string) option" where
  "syncMoveTuple remain =
     (let spA = indexOf remain CHR '' '';
          spB = indexOfFrom remain CHR '' '' (spA + 1);
          spC = indexOfFrom remain CHR '' '' (spB + 1)
      in if spA < 0 \<or> spB < 0 \<or> spC < 0 then None
         else
           let idStr = substring remain 0 spA;
               posStr = substring remain (spA + 1) spB;
               spdStr = substring remain (spB + 1) spC;
               spNext = indexOfFrom remain CHR '' '' (spC + 1);
               accStr = (if spNext \<ge> 0 then substring remain (spC + 1) spNext
                         else substringFrom remain (spC + 1));
               remain' = trim (if spNext \<ge> 0 then substringFrom remain (spNext + 1) else [])
           in Some (toInt idStr, toInt posStr, toInt spdStr, toInt accStr, remain'))"

text \<open>
  The loop over the \<open>n\<close> tuples and the batch write after it. The four arrays are the
  lists of the cells written so far: turn \<open>i\<close> writes cell \<open>i\<close>.
\<close>

function syncMoveLoop ::
  "bus \<Rightarrow> int \<Rightarrow> int \<Rightarrow> string \<Rightarrow> int list \<Rightarrow> int list \<Rightarrow> int list \<Rightarrow> int list \<Rightarrow> event list"
where
  "syncMoveLoop st n i remain IDs Positions Speeds Accs =
     (if i < n then
        (case syncMoveTuple remain of
           None \<Rightarrow> println ''ERROR: not enough arguments for SYNC_MOVE'' []
         | Some (sid, pos, speed, acc, remain') \<Rightarrow>
             syncMoveLoop st n (i + 1) remain'
               (IDs @ [uint8_t sid])
               (Positions @ [int16_t (clamp 0 4095 pos)])
               (Speeds @ [uint16_t (clamp 0 4095 speed)])
               (Accs @ [uint8_t (clamp 0 255 acc)]))
      else
        let (r, tr) = call st (SyncWritePosEx IDs n Positions Speeds Accs) []
        in println ''OK'' tr)"
  by pat_completeness auto
termination
  by (relation "measure (\<lambda>(st, n, i, remain, IDs, Positions, Speeds, Accs). nat (n - i))") auto

declare syncMoveLoop.simps [simp del]

definition handleSyncMove :: "bus \<Rightarrow> string \<Rightarrow> event list" where
  "handleSyncMove st args =
     (let sp1 = indexOf args CHR '' '' in
      if sp1 < 0 then println ''ERROR: SYNC_MOVE usage'' []
      else
        let n = toInt (substring args 0 sp1) in
        if n < 1 \<or> n > 12 then println ''ERROR: n out of range'' []
        else syncMoveLoop st n 0 (trim (substringFrom args (sp1 + 1))) [] [] [] [])"

definition handleReadPos :: "bus \<Rightarrow> string \<Rightarrow> event list" where
  "handleReadPos st args =
     (let id = toInt args in
      if id < 0 \<or> id > 253 then println ''ERROR: invalid ID'' []
      else
        let (pos, tr) = call st (ReadPos id) []
        in if pos \<noteq> - 1 then println (''POS '' @ printInt pos) tr
           else println ''ERROR: read pos fail'' tr)"

definition scanPosBody :: "bus \<Rightarrow> int \<Rightarrow> event list \<Rightarrow> event list" where
  "scanPosBody st sid tr =
     (let (pos, tr1) = call st (ReadPos sid) tr;
          tr2 = (if pos \<ge> 0 then println (''ID '' @ printInt sid @ '' POS '' @ printInt pos) tr1
                 else tr1)
      in delayMicroseconds 300 tr2)"

function scanPosLoop :: "bus \<Rightarrow> int \<Rightarrow> int \<Rightarrow> event list \<Rightarrow> event list" where
  "scanPosLoop st sid to tr =
     (if sid \<le> to then
        (if sid = INT_MAX then scanPosBody st sid tr @ [SignedOverflow]
         else scanPosLoop st (sid + 1) to (scanPosBody st sid tr))
      else println ''DONE'' tr)"
  by pat_completeness auto
termination
  by (relation "measure (\<lambda>(st, sid, to, tr). nat (to - sid + 1))") auto

declare scanPosLoop.simps [simp del]

definition handleScanPos :: "bus \<Rightarrow> string \<Rightarrow> event list" where
  "handleScanPos st args =
     (let (from, to) = scanNormalize (scanParse args)
      in scanPosLoop st from to [])"

subsection \<open>Wheel control: SPEED, SYNC_SPEED, STOP, STOP_ALL, READ_SPEED\<close>

definition SPEED_MIN :: int where
  "SPEED_MIN = - 4095"

definition SPEED_MAX :: int where
  "SPEED_MAX = 4095"

definition SERVO_IDS :: "int list" where
  "SERVO_IDS = [100, 101, 102, 103, 104, 105, 106]"

definition SERVO_COUNT :: int where
  "SERVO_COUNT = int (length SERVO_IDS)"

definition handleSpeed :: "bus \<Rightarrow> string \<Rightarrow> event list" where
  "handleSpeed st args =
     (let sp = indexOf args CHR '' '' in
      if sp < 0 then println ''ERROR: SPEED usage: SPEED <id> <speed>'' []
      else
        let id = toInt (substring args 0 sp);
            speed = toInt (substringFrom args (sp + 1))
        in if id < 0 \<or> id > 253 then println ''ERROR: invalid ID'' []
           else
             let speed = clamp SPEED_MIN SPEED_MAX speed;
                 (e, tr1) = call st (EnableTorque (uint8_t id) 1) [];
                 tr2 = delay 2 tr1;
                 (r, tr3) = call st (WriteSpe (uint8_t id) (int16_t speed)) tr2
             in println (if r \<noteq> - 1 then ''OK'' else ''ERROR'') tr3)"

text \<open>
  One pair of SYNC_SPEED cut off the front of \<^verbatim>\<open>remain\<close>; \<open>lastTurn\<close> is the
  source's \<^verbatim>\<open>i < n - 1\<close> negated. \<open>None\<close> where the source prints
  \<^verbatim>\<open>not enough args\<close>.
\<close>

definition syncSpeedPair :: "bool \<Rightarrow> string \<Rightarrow> (int \<times> int \<times> string) option" where
  "syncSpeedPair lastTurn remain =
     (let spA = indexOf remain CHR '' '' in
      if spA < 0 then None
      else
        let idStr = substring remain 0 spA;
            remain1 = trim (substringFrom remain (spA + 1));
            spB = indexOf remain1 CHR '' '';
            speedStr = (if spB \<ge> 0 \<and> \<not> lastTurn then substring remain1 0 spB else remain1);
            remain2 = (if spB \<ge> 0 \<and> \<not> lastTurn then trim (substringFrom remain1 (spB + 1))
                       else [])
        in Some (toInt idStr, toInt speedStr, remain2))"

function syncSpeedLoop :: "bus \<Rightarrow> int \<Rightarrow> int \<Rightarrow> string \<Rightarrow> event list \<Rightarrow> event list" where
  "syncSpeedLoop st n i remain tr =
     (if i < n then
        (case syncSpeedPair (\<not> i < n - 1) remain of
           None \<Rightarrow> println ''ERROR: not enough args'' tr
         | Some (sid, speed, remain') \<Rightarrow>
             if sid < 0 \<or> sid > 253 then println ''ERROR: invalid ID'' tr
             else
               let speed = clamp SPEED_MIN SPEED_MAX speed;
                   (e, tr1) = call st (EnableTorque (uint8_t sid) 1) tr;
                   tr2 = delay 2 tr1;
                   (r, tr3) = call st (WriteSpe (uint8_t sid) (int16_t speed)) tr2
               in if r = - 1 then println ''ERROR'' tr3
                  else syncSpeedLoop st n (i + 1) remain' (delayMicroseconds 300 tr3))
      else println ''OK'' tr)"
  by pat_completeness auto
termination
  by (relation "measure (\<lambda>(st, n, i, remain, tr). nat (n - i))") auto

declare syncSpeedLoop.simps [simp del]

definition handleSyncSpeed :: "bus \<Rightarrow> string \<Rightarrow> event list" where
  "handleSyncSpeed st args =
     (let sp1 = indexOf args CHR '' '' in
      if sp1 < 0 then println ''ERROR: SYNC_SPEED usage'' []
      else
        let n = toInt (substring args 0 sp1) in
        if n < 1 \<or> n > 12 then println ''ERROR: n out of range'' []
        else syncSpeedLoop st n 0 (trim (substringFrom args (sp1 + 1))) [])"

definition handleStop :: "bus \<Rightarrow> string \<Rightarrow> event list" where
  "handleStop st args =
     (let id = toInt args in
      if id < 0 \<or> id > 253 then println ''ERROR: invalid ID'' []
      else
        let (e, tr1) = call st (EnableTorque (uint8_t id) 1) [];
            tr2 = delay 2 tr1;
            (r, tr3) = call st (WriteSpe (uint8_t id) 0) tr2
        in println (if r \<noteq> - 1 then ''OK'' else ''ERROR'') tr3)"

text \<open>
  \<^verbatim>\<open>for (int i = 0; i < SERVO_COUNT; i++)\<close> over the roster, and the line after it.
  The index stays below the length of the roster.
\<close>

function stopAllLoop :: "bus \<Rightarrow> int \<Rightarrow> event list \<Rightarrow> event list" where
  "stopAllLoop st i tr =
     (if i < SERVO_COUNT then
        let id = SERVO_IDS ! nat i;
            (e, tr1) = call st (EnableTorque id 1) tr;
            tr2 = delay 2 tr1;
            (r, tr3) = call st (WriteSpe id 0) tr2
        in if r = - 1 then println ''ERROR'' tr3
           else stopAllLoop st (i + 1) (delayMicroseconds 300 tr3)
      else println ''OK'' tr)"
  by pat_completeness auto
termination
  by (relation "measure (\<lambda>(st, i, tr). nat (SERVO_COUNT - i))") auto

declare stopAllLoop.simps [simp del]

definition handleStopAll :: "bus \<Rightarrow> event list" where
  "handleStopAll st = stopAllLoop st 0 []"

definition handleReadSpeed :: "bus \<Rightarrow> string \<Rightarrow> event list" where
  "handleReadSpeed st args =
     (let id = toInt args in
      if id < 0 \<or> id > 253 then println ''ERROR: invalid ID'' []
      else
        let (v, tr) = call st (ReadSpeed (uint8_t id)) []
        in if v \<noteq> - 1 then println (''SPEED '' @ printInt v) tr
           else println ''ERROR'' tr)"

subsection \<open>Torque and telemetry\<close>

definition handleEnableTorque :: "bus \<Rightarrow> string \<Rightarrow> event list" where
  "handleEnableTorque st args =
     (let id = toInt args in
      if id < 0 \<or> id > 253 then println ''ERROR: Invalid ID'' []
      else
        let (res, tr) = call st (EnableTorque (uint8_t id) 1) []
        in println (if res \<noteq> - 1 then ''OK'' else ''ERROR: enable torque fail'') tr)"

definition handleDisableTorque :: "bus \<Rightarrow> string \<Rightarrow> event list" where
  "handleDisableTorque st args =
     (let id = toInt args in
      if id < 0 \<or> id > 253 then println ''ERROR: Invalid ID'' []
      else
        let (res, tr) = call st (EnableTorque (uint8_t id) 0) []
        in println (if res \<noteq> - 1 then ''OK'' else ''ERROR: disable torque fail'') tr)"

definition handleReadLoad :: "bus \<Rightarrow> string \<Rightarrow> event list" where
  "handleReadLoad st args =
     (let id = toInt args in
      if id < 0 \<or> id > 253 then println ''ERROR: invalid ID'' []
      else
        let (load, tr) = call st (ReadLoad id) []
        in if load \<noteq> - 1 then println (''LOAD '' @ printInt load) tr
           else println ''ERROR: read load fail'' tr)"

definition handleReadVoltage :: "bus \<Rightarrow> string \<Rightarrow> event list" where
  "handleReadVoltage st args =
     (let id = toInt args in
      if id < 0 \<or> id > 253 then println ''ERROR: invalid ID'' []
      else
        let (volt, tr) = call st (ReadVoltage id) []
        in if volt \<noteq> - 1 then println (''VOLTAGE '' @ printInt volt) tr
           else println ''ERROR: read voltage fail'' tr)"

definition handleReadTemp :: "bus \<Rightarrow> string \<Rightarrow> event list" where
  "handleReadTemp st args =
     (let id = toInt args in
      if id < 0 \<or> id > 253 then println ''ERROR: invalid ID'' []
      else
        let (temp, tr) = call st (ReadTemper id) []
        in if temp \<noteq> - 1 then println (''TEMP '' @ printInt temp) tr
           else println ''ERROR: read temperature fail'' tr)"

subsection \<open>The command parser\<close>

text \<open>
  \<^verbatim>\<open>processCommand\<close>: the name is the text before the first space, in upper case; the
  tail is the rest, trimmed. A line with no space (or with its first space at index 0)
  is all name.
\<close>

definition dispatch :: "bus \<Rightarrow> string \<Rightarrow> string \<Rightarrow> event list" where
  "dispatch st cmdName args =
     (if cmdName = ''PING'' then handlePing st args
      else if cmdName = ''SCAN_ID'' then handleScanID st args
      else if cmdName = ''SET_ID'' then handleSetID st args
      else if cmdName = ''SET_SERVO'' then handleSetServo st args
      else if cmdName = ''SET_WHEEL'' then handleSetWheel st args
      else if cmdName = ''READ_MODE'' then handleReadMode st args
      else if cmdName = ''MOVE'' then handleMove st args
      else if cmdName = ''SYNC_MOVE'' then handleSyncMove st args
      else if cmdName = ''READ_POS'' then handleReadPos st args
      else if cmdName = ''SCAN_POS'' then handleScanPos st args
      else if cmdName = ''SPEED'' then handleSpeed st args
      else if cmdName = ''SYNC_SPEED'' then handleSyncSpeed st args
      else if cmdName = ''STOP'' then handleStop st args
      else if cmdName = ''STOP_ALL'' then handleStopAll st
      else if cmdName = ''READ_SPEED'' then handleReadSpeed st args
      else if cmdName = ''ENABLE_TORQUE'' then handleEnableTorque st args
      else if cmdName = ''DISABLE_TORQUE'' then handleDisableTorque st args
      else if cmdName = ''READ_LOAD'' then handleReadLoad st args
      else if cmdName = ''READ_VOLTAGE'' then handleReadVoltage st args
      else if cmdName = ''READ_TEMP'' then handleReadTemp st args
      else println ''ERROR: Unknown command'' [])"

definition processCommand :: "bus \<Rightarrow> string \<Rightarrow> event list" where
  "processCommand st command =
     (let firstSpaceIndex = indexOf command CHR '' '';
          cmdName = (if firstSpaceIndex > 0 then substring command 0 firstSpaceIndex
                     else command);
          args = (if firstSpaceIndex > 0 then trim (substringFrom command (firstSpaceIndex + 1))
                  else [])
      in dispatch st (toUpperCase cmdName) args)"

text \<open>One turn of \<^verbatim>\<open>loop()\<close> on a line read from the host: an empty line does nothing.\<close>

definition loopLine :: "bus \<Rightarrow> string \<Rightarrow> event list" where
  "loopLine st line = (let cmd = trim line in if length cmd > 0 then processCommand st cmd else [])"

subsection \<open>Reading a trace\<close>

text \<open>The bus calls of a trace in order, and the lines it printed.\<close>

fun busCalls :: "event list \<Rightarrow> bus_call list" where
  "busCalls [] = []"
| "busCalls (Bus c r # tr) = c # busCalls tr"
| "busCalls (e # tr) = busCalls tr"

fun outLines :: "event list \<Rightarrow> string list" where
  "outLines [] = []"
| "outLines (Out s # tr) = s # outLines tr"
| "outLines (e # tr) = outLines tr"

text \<open>The calls that lock the configuration of a device.\<close>

fun isLock :: "bus_call \<Rightarrow> bool" where
  "isLock (LockEprom i) = True"
| "isLock c = False"

text \<open>Every cell of an array lies between two bounds.\<close>

definition inRange :: "int \<Rightarrow> int \<Rightarrow> int list \<Rightarrow> bool" where
  "inRange lo hi xs = list_all (\<lambda>x. lo \<le> x \<and> x \<le> hi) xs"

text \<open>The pings of a trace that were answered (by a value other than -1).\<close>

fun pingsFound :: "event list \<Rightarrow> nat" where
  "pingsFound [] = 0"
| "pingsFound (Bus c r # tr) = (if r \<noteq> - 1 then 1 else 0) + pingsFound tr"
| "pingsFound (e # tr) = pingsFound tr"

text \<open>
  The two parts of a command line, said with list functions: the name is the text before
  the first space, in upper case; the tail is what follows that space, trimmed.
  \<open>processCommand\<close> computes them with \<^verbatim>\<open>indexOf\<close> and \<^verbatim>\<open>substring\<close>
  (lemma \<open>processCommand_tokens\<close> below).
\<close>

definition commandName :: "string \<Rightarrow> string" where
  "commandName command = toUpperCase (takeWhile (\<lambda>c. c \<noteq> CHR '' '') command)"

definition argumentTail :: "string \<Rightarrow> string" where
  "argumentTail command = trim (drop 1 (dropWhile (\<lambda>c. c \<noteq> CHR '' '') command))"

text \<open>The calls that write a wheel speed.\<close>

fun isWriteSpe :: "bus_call \<Rightarrow> bool" where
  "isWriteSpe (WriteSpe i s) = True"
| "isWriteSpe c = False"

text \<open>The number of spaces in an argument tail.\<close>

definition countSpaces :: "string \<Rightarrow> nat" where
  "countSpaces s = count_list s CHR '' ''"

text \<open>
  The device IDs a bus call carries: the device it addresses (for a batch write, the cells
  of its ID array) and, for a write to the ID register, also the ID written. A trace is
  valid when every ID of every bus call in it lies in 0..253.
\<close>

fun callIds :: "bus_call \<Rightarrow> int list" where
  "callIds (Ping i) = [i]"
| "callIds (UnLockEprom i) = [i]"
| "callIds (LockEprom i) = [i]"
| "callIds (WriteByte i SMS_STS_ID v) = [i, v]"
| "callIds (WriteByte i SMS_STS_MODE v) = [i]"
| "callIds (EnableTorque i e) = [i]"
| "callIds (WheelMode i) = [i]"
| "callIds (ReadMode i) = [i]"
| "callIds (WritePosEx i p s a) = [i]"
| "callIds (SyncWritePosEx ids n ps ss as) = ids"
| "callIds (ReadPos i) = [i]"
| "callIds (WriteSpe i s) = [i]"
| "callIds (ReadSpeed i) = [i]"
| "callIds (ReadLoad i) = [i]"
| "callIds (ReadVoltage i) = [i]"
| "callIds (ReadTemper i) = [i]"

definition validId :: "int \<Rightarrow> bool" where
  "validId i = (0 \<le> i \<and> i \<le> 253)"

definition idsValid :: "event list \<Rightarrow> bool" where
  "idsValid tr = list_all (\<lambda>c. list_all validId (callIds c)) (busCalls tr)"

text \<open>
  The fields of the first \<open>k\<close> tuples of a SYNC_MOVE tail, as the loop of
  \<^verbatim>\<open>handleSyncMove\<close> cuts them one after the other with \<open>syncMoveTuple\<close>; \<open>None\<close> when
  one of them cannot be cut.
\<close>

fun syncMoveTuples :: "nat \<Rightarrow> string \<Rightarrow> (int \<times> int \<times> int \<times> int) list option" where
  "syncMoveTuples 0 remain = Some []"
| "syncMoveTuples (Suc k) remain =
     (case syncMoveTuple remain of
        None \<Rightarrow> None
      | Some (sid, pos, speed, acc, remain') \<Rightarrow>
          map_option ((#) (sid, pos, speed, acc)) (syncMoveTuples k remain'))"

text \<open>
  A text starts with a number when, after its leading white space and one optional sign,
  it goes on with a digit.
\<close>

definition hasNumber :: "string \<Rightarrow> bool" where
  "hasNumber s =
     (case dropWhile isspace s of
        [] \<Rightarrow> False
      | c # cs \<Rightarrow>
          if c = CHR ''-'' \<or> c = CHR ''+''
          then (case cs of [] \<Rightarrow> False | d # ds \<Rightarrow> isdigit d)
          else isdigit c)"

section \<open>Facts about the String primitives\<close>

lemma unsigned_nonneg: "0 \<le> x \<Longrightarrow> unsigned x = x"
  by (simp add: unsigned_def)

lemma strchr_None: "strchr s ch = None \<longleftrightarrow> ch \<notin> set s"
  by (induction s) auto

lemma strchr_split: "ch \<notin> set a \<Longrightarrow> strchr (a @ ch # b) ch = Some (length a)"
  by (induction a) auto

lemma indexOfFrom_notin:
  "ch \<notin> set a \<Longrightarrow> indexOfFrom (p @ a) ch (int (length p)) = - 1"
  using strchr_None [of a ch] by (simp add: indexOfFrom_def unsigned_nonneg)

lemma indexOfFrom_split:
  "ch \<notin> set a \<Longrightarrow>
   indexOfFrom (p @ a @ ch # b) ch (int (length p)) = int (length p) + int (length a)"
  by (simp add: indexOfFrom_def unsigned_nonneg strchr_split)

lemma indexOf_notin: "ch \<notin> set s \<Longrightarrow> indexOf s ch = - 1"
  using indexOfFrom_notin [of ch s "[]"] by (simp add: indexOf_def)

lemma indexOf_split: "ch \<notin> set a \<Longrightarrow> indexOf (a @ ch # b) ch = int (length a)"
  using indexOfFrom_split [of ch a "[]" b] by (simp add: indexOf_def)

lemma substring_mid:
  "substring (p @ a @ q) (int (length p)) (int (length p) + int (length a)) = a"
proof (cases "a = [] \<and> q = []")
  case True
  then show ?thesis by (simp add: substring_def unsigned_nonneg Let_def)
next
  case False
  then have "0 < length a \<or> 0 < length q" by simp
  then have "\<not> int (length a) + int (length q) \<le> 0" by linarith
  then show ?thesis by (simp add: substring_def unsigned_nonneg Let_def)
qed

lemma substring_prefix: "substring (a @ q) 0 (int (length a)) = a"
  using substring_mid [of "[]" a q] by simp

lemma substringFrom_drop: "substringFrom (p @ q) (int (length p)) = q"
  by (auto simp: substringFrom_def substring_def unsigned_nonneg Let_def)

lemma substringFrom_after: "substringFrom (p @ c # q) (int (length p) + 1) = q"
  using substringFrom_drop [of "p @ [c]" q] by (simp add: add.commute)

lemma uint8_t_id: "0 \<le> x \<Longrightarrow> x \<le> 255 \<Longrightarrow> uint8_t x = x"
  by (simp add: uint8_t_def)

lemma indexOfFrom_next:
  "ch \<notin> set b \<Longrightarrow>
   indexOfFrom (p @ c # b @ ch # q) ch (int (length p) + 1) = int (length p) + 1 + int (length b)"
  using indexOfFrom_split [of ch b "p @ [c]" q] by (simp add: add.commute)

lemma indexOfFrom_next_none:
  "ch \<notin> set b \<Longrightarrow> indexOfFrom (p @ c # b) ch (int (length p) + 1) = - 1"
  using indexOfFrom_notin [of ch b "p @ [c]"] by (simp add: add.commute)

lemma substring_next:
  "substring (p @ c # b @ q) (int (length p) + 1) (int (length p) + 1 + int (length b)) = b"
  using substring_mid [of "p @ [c]" b q] by (simp add: add.commute)

lemma clamp_range: "lo \<le> hi \<Longrightarrow> lo \<le> clamp lo hi x \<and> clamp lo hi x \<le> hi"
  by (simp add: clamp_def Let_def)


lemma int16_t_id: "- 32768 \<le> x \<Longrightarrow> x \<le> 32767 \<Longrightarrow> int16_t x = x"
  by (simp add: int16_t_def)

lemma uint16_t_id: "0 \<le> x \<Longrightarrow> x \<le> 65535 \<Longrightarrow> uint16_t x = x"
  by (simp add: uint16_t_def)

lemma int16_t_clamp: "int16_t (clamp 0 4095 x) = clamp 0 4095 x"
  using clamp_range [of 0 4095 x] by (simp add: int16_t_id)

lemma uint16_t_clamp: "uint16_t (clamp 0 4095 x) = clamp 0 4095 x"
  using clamp_range [of 0 4095 x] by (simp add: uint16_t_id)

lemma uint8_t_clamp: "uint8_t (clamp 0 255 x) = clamp 0 255 x"
  using clamp_range [of 0 255 x] by (simp add: uint8_t_id)

section \<open>Facts about traces\<close>

lemma busCalls_append: "busCalls (xs @ ys) = busCalls xs @ busCalls ys"
  by (induction xs rule: busCalls.induct) auto

lemma outLines_append: "outLines (xs @ ys) = outLines xs @ outLines ys"
  by (induction xs rule: outLines.induct) auto

lemma pingsFound_append: "pingsFound (xs @ ys) = pingsFound xs + pingsFound ys"
  by (induction xs rule: pingsFound.induct) auto

lemma saturate_bounds: "INT_MIN \<le> saturate x \<and> saturate x \<le> INT_MAX"
  by (simp add: saturate_def INT_MIN_def INT_MAX_def)

lemma toInt_bounds: "INT_MIN \<le> toInt s \<and> toInt s \<le> INT_MAX"
  using saturate_bounds
  by (auto simp: toInt_def INT_MIN_def INT_MAX_def split: list.splits)

lemma idsValid_append: "idsValid (xs @ ys) \<longleftrightarrow> idsValid xs \<and> idsValid ys"
  by (simp add: idsValid_def busCalls_append)

lemma idsValid_simps [simp]:
  "idsValid []"
  "idsValid (Out s # tr) = idsValid tr"
  "idsValid (Delay d # tr) = idsValid tr"
  "idsValid (SignedOverflow # tr) = idsValid tr"
  "idsValid (Bus c r # tr) = (list_all validId (callIds c) \<and> idsValid tr)"
  by (simp_all add: idsValid_def)

section \<open>The tokenizer\<close>

lemma indexOf_empty: "indexOf [] ch = - 1"
  by (simp add: indexOf_def indexOfFrom_def unsigned_def)

lemma processCommand_tokens:
  assumes "commandName command \<noteq> []"
  shows "processCommand st command = dispatch st (commandName command) (argumentTail command)"
proof (cases "CHR '' '' \<in> set command")
  case False
  then have tw: "takeWhile (\<lambda>c. c \<noteq> CHR '' '') command = command"
    and dw: "dropWhile (\<lambda>c. c \<noteq> CHR '' '') command = []"
    by (auto simp: takeWhile_eq_all_conv)
  have tr: "trim [] = []" by (simp add: trim_def)
  show ?thesis
    unfolding processCommand_def commandName_def argumentTail_def tw dw
    using False by (simp add: indexOf_notin tr)
next
  case True
  then obtain a r where cmd: "command = a @ CHR '' '' # r" and a: "CHR '' '' \<notin> set a"
    by (auto dest: split_list_first)
  have tw: "takeWhile (\<lambda>c. c \<noteq> CHR '' '') command = a"
    and dw: "dropWhile (\<lambda>c. c \<noteq> CHR '' '') command = CHR '' '' # r"
    using a unfolding cmd by (induction a) auto
  from assms tw have "a \<noteq> []"
    by (auto simp: commandName_def toUpperCase_def)
  then have pos: "0 < int (length a)" by simp
  have sp: "indexOf command CHR '' '' = int (length a)"
    unfolding cmd using a by (rule indexOf_split)
  have nm: "substring command 0 (int (length a)) = a"
    unfolding cmd by (rule substring_prefix)
  have tl: "substringFrom command (int (length a) + 1) = r"
    unfolding cmd by (rule substringFrom_after)
  show ?thesis
    unfolding processCommand_def sp Let_def commandName_def argumentTail_def tw dw
    using pos by (simp add: nm tl)
qed

lemma dispatch_unknown_space:
  "dispatch st (CHR '' '' # n) args = [Out ''ERROR: Unknown command'']"
  by (simp add: dispatch_def println_def)

lemma processCommand_noname:
  assumes "commandName command = []"
  shows "processCommand st command = [Out ''ERROR: Unknown command'']"
proof (cases command)
  case Nil
  then show ?thesis
    by (simp add: processCommand_def indexOf_empty toUpperCase_def dispatch_def println_def)
next
  case (Cons c r)
  with assms have c: "c = CHR '' ''"
    by (auto simp: commandName_def toUpperCase_def split: if_splits)
  have "indexOf command CHR '' '' = 0"
    using indexOf_split [of "CHR '' ''" "[]" r] by (simp add: Cons c)
  then show ?thesis
    by (simp add: processCommand_def Cons c toUpperCase_def toupper_def dispatch_unknown_space)
qed

section \<open>SET_ID\<close>

text \<open>
  A tail with a space is \<open>a @ '' '' @ b\<close> with no space in \<open>a\<close>: the old ID is read
  from \<open>a\<close> and the new ID from \<open>b\<close>.
\<close>

lemma handleSetID_split:
  assumes "CHR '' '' \<notin> set a"
  shows "handleSetID st (a @ CHR '' '' # b) =
     (if toInt a < 0 \<or> toInt a > 253 \<or> toInt b < 0 \<or> toInt b > 253
      then [Out ''ERROR: Invalid ID range'']
      else
        let u = st [] (UnLockEprom (uint8_t (toInt a)));
            tr1 = [Bus (UnLockEprom (uint8_t (toInt a))) u];
            w = st tr1 (WriteByte (uint8_t (toInt a)) SMS_STS_ID (uint8_t (toInt b)));
            tr2 = tr1 @ [Bus (WriteByte (uint8_t (toInt a)) SMS_STS_ID (uint8_t (toInt b))) w];
            l = st tr2 (LockEprom (uint8_t (toInt b)))
        in tr2 @ [Bus (LockEprom (uint8_t (toInt b))) l,
                  Out (if w \<noteq> 0 then ''OK'' else ''ERROR: write ID fail'')])"
proof -
  have sp: "indexOf (a @ CHR '' '' # b) CHR '' '' = int (length a)"
    using assms by (rule indexOf_split)
  have old: "substring (a @ CHR '' '' # b) 0 (int (length a)) = a"
    by (rule substring_prefix)
  have new: "substringFrom (a @ CHR '' '' # b) (int (length a) + 1) = b"
    by (rule substringFrom_after)
  show ?thesis
    unfolding handleSetID_def sp Let_def old new
    by (simp add: call_def println_def)
qed

text \<open>
  C7. For every SET_ID whose two IDs lie in 0..253, the handler makes exactly three bus
  calls, in this order: unlock the configuration of the old ID, write the new ID into
  the ID register of the old ID, lock the configuration. The lock call is there whatever
  the write call returned, and the line that reports the outcome of the write comes
  after the lock call.
\<close>

theorem setID_unlock_write_lock:
  assumes "CHR '' '' \<notin> set a"
    and "0 \<le> toInt a" and "toInt a \<le> 253"
    and "0 \<le> toInt b" and "toInt b \<le> 253"
  shows "\<exists>u w l. handleSetID st (a @ CHR '' '' # b) =
           [Bus (UnLockEprom (toInt a)) u,
            Bus (WriteByte (toInt a) SMS_STS_ID (toInt b)) w,
            Bus (LockEprom (toInt b)) l,
            Out (if w \<noteq> 0 then ''OK'' else ''ERROR: write ID fail'')]"
  using assms by (simp add: handleSetID_split uint8_t_id Let_def)

theorem setID_unlock_write_lock_witness:
  "CHR '' '' \<notin> set ''5'' \<and> toInt ''5'' = 5 \<and> toInt ''7'' = 7 \<and>
   (\<exists>u l. handleSetID (\<lambda>tr c. case c of WriteByte i r v \<Rightarrow> 0 | _ \<Rightarrow> 1) ''5 7'' =
      [Bus (UnLockEprom 5) u, Bus (WriteByte 5 SMS_STS_ID 7) 0, Bus (LockEprom 7) l,
       Out ''ERROR: write ID fail''])"
proof -
  have a: "toInt ''5'' = 5" and b: "toInt ''7'' = 7"
    by code_simp+
  have n: "CHR '' '' \<notin> set ''5''"
    by simp
  have "\<exists>u w l. handleSetID (\<lambda>tr c. case c of WriteByte i r v \<Rightarrow> 0 | _ \<Rightarrow> 1) (''5'' @ CHR '' '' # ''7'') =
          [Bus (UnLockEprom (toInt ''5'')) u,
           Bus (WriteByte (toInt ''5'') SMS_STS_ID (toInt ''7'')) w,
           Bus (LockEprom (toInt ''7'')) l,
           Out (if w \<noteq> 0 then ''OK'' else ''ERROR: write ID fail'')]"
    by (rule setID_unlock_write_lock [OF n]) (simp_all add: a b)
  then obtain u w l where
    tr: "handleSetID (\<lambda>tr c. case c of WriteByte i r v \<Rightarrow> 0 | _ \<Rightarrow> 1) ''5 7'' =
          [Bus (UnLockEprom 5) u, Bus (WriteByte 5 SMS_STS_ID 7) w, Bus (LockEprom 7) l,
           Out (if w \<noteq> 0 then ''OK'' else ''ERROR: write ID fail'')]"
    by (auto simp: a b)
  have "handleSetID (\<lambda>tr c. case c of WriteByte i r v \<Rightarrow> 0 | _ \<Rightarrow> 1) ''5 7'' =
          [Bus (UnLockEprom 5) 1, Bus (WriteByte 5 SMS_STS_ID 7) 0, Bus (LockEprom 7) 1,
           Out ''ERROR: write ID fail'']"
    by code_simp
  with tr have "w = 0" by simp
  with tr n a b show ?thesis by auto
qed

text \<open>
  C8, as amended. In every SET_ID that reaches the bus, the one lock call of the trace is
  addressed to the new ID. When the two IDs differ, no lock call is addressed to the old
  ID, whatever the write call returned: the sketch never locks again a device that kept
  its old ID. (When the two IDs are equal the lock call is addressed to that ID.)
\<close>

theorem setID_lock_addresses_new_id:
  assumes "CHR '' '' \<notin> set a"
    and "0 \<le> toInt a" and "toInt a \<le> 253"
    and "0 \<le> toInt b" and "toInt b \<le> 253"
  shows "filter isLock (busCalls (handleSetID st (a @ CHR '' '' # b))) = [LockEprom (toInt b)] \<and>
         (toInt a \<noteq> toInt b \<longrightarrow>
            LockEprom (toInt a) \<notin> set (busCalls (handleSetID st (a @ CHR '' '' # b))))"
  using assms by (simp add: handleSetID_split uint8_t_id Let_def)

theorem setID_lock_addresses_new_id_witness:
  "CHR '' '' \<notin> set ''5'' \<and> toInt ''5'' = 5 \<and> toInt ''7'' = 7 \<and>
   filter isLock (busCalls (handleSetID (\<lambda>tr c. 0) ''5 7'')) = [LockEprom 7] \<and>
   LockEprom 5 \<notin> set (busCalls (handleSetID (\<lambda>tr c. 0) ''5 7''))"
proof -
  have a: "toInt ''5'' = 5" and b: "toInt ''7'' = 7"
    by code_simp+
  have n: "CHR '' '' \<notin> set ''5''"
    by simp
  have "filter isLock (busCalls (handleSetID (\<lambda>tr c. 0) (''5'' @ CHR '' '' # ''7''))) =
          [LockEprom (toInt ''7'')] \<and>
        (toInt ''5'' \<noteq> toInt ''7'' \<longrightarrow>
           LockEprom (toInt ''5'') \<notin> set (busCalls (handleSetID (\<lambda>tr c. 0) (''5'' @ CHR '' '' # ''7''))))"
    by (rule setID_lock_addresses_new_id [OF n]) (simp_all add: a b)
  with n a b show ?thesis by simp
qed

text \<open>
  The claim as the spec words it fails where the two IDs are equal: \<^verbatim>\<open>SET_ID 5 5\<close>
  reaches the bus and its lock call is addressed to 5, the old ID.
\<close>

theorem setID_lock_old_id_counterexample:
  "busCalls (handleSetID (\<lambda>tr c. 0) ''5 5'') =
     [UnLockEprom 5, WriteByte 5 SMS_STS_ID 5, LockEprom 5]"
  by code_simp

section \<open>MOVE\<close>

text \<open>
  A tail with three spaces or more is \<open>a @ '' '' @ b @ '' '' @ c @ '' '' @ d\<close> with no
  space in \<open>a\<close>, \<open>b\<close> and \<open>c\<close>; the last field \<open>d\<close> is the rest.
\<close>

lemma handleMove_split:
  assumes "CHR '' '' \<notin> set a" and "CHR '' '' \<notin> set b" and "CHR '' '' \<notin> set c"
  shows "handleMove st (a @ CHR '' '' # b @ CHR '' '' # c @ CHR '' '' # d) =
     (if toInt a < 0 \<or> toInt a > 253 then [Out ''ERROR: invalid ID'']
      else [Bus (WritePosEx (toInt a) (clamp 0 4095 (toInt b)) (clamp 0 4095 (toInt c))
                   (clamp 0 255 (toInt d)))
              (st [] (WritePosEx (toInt a) (clamp 0 4095 (toInt b)) (clamp 0 4095 (toInt c))
                   (clamp 0 255 (toInt d)))),
            Out ''OK''])"
proof -
  let ?args = "a @ CHR '' '' # b @ CHR '' '' # c @ CHR '' '' # d"
  let ?ab = "a @ CHR '' '' # b"
  have len: "int (length ?ab) = int (length a) + 1 + int (length b)" by simp
  have sp1: "indexOf ?args CHR '' '' = int (length a)"
    using assms(1) by (rule indexOf_split)
  have sp2: "indexOfFrom ?args CHR '' '' (int (length a) + 1) = int (length a) + 1 + int (length b)"
    using assms(2) by (rule indexOfFrom_next)
  have sp3: "indexOfFrom ?args CHR '' '' (int (length a) + 1 + int (length b) + 1)
               = int (length a) + 1 + int (length b) + 1 + int (length c)"
    using indexOfFrom_next [OF assms(3), of ?ab "CHR '' ''" d] unfolding len by simp
  have f1: "substring ?args 0 (int (length a)) = a"
    by (rule substring_prefix)
  have f2: "substring ?args (int (length a) + 1) (int (length a) + 1 + int (length b)) = b"
    by (rule substring_next)
  have f3: "substring ?args (int (length a) + 1 + int (length b) + 1)
              (int (length a) + 1 + int (length b) + 1 + int (length c)) = c"
    using substring_next [of ?ab "CHR '' ''" c "CHR '' '' # d"] unfolding len by simp
  have f4: "substringFrom ?args (int (length a) + 1 + int (length b) + 1 + int (length c) + 1) = d"
    using substringFrom_after [of "?ab @ CHR '' '' # c" "CHR '' ''" d]
    by (simp add: add.commute add.left_commute)
  show ?thesis
    unfolding handleMove_def sp1 Let_def sp2 sp3 f1 f2 f3 f4
    by (simp add: call_def println_def uint8_t_id int16_t_clamp uint16_t_clamp uint8_t_clamp)
qed

text \<open>
  C10. For every MOVE whose tail has three space delimiters and whose device ID lies in
  0..253, the only line printed is \<^verbatim>\<open>OK\<close>, after the one position write, for every
  bus: whatever that write returned.
\<close>

theorem move_reports_OK_for_every_bus:
  assumes "CHR '' '' \<notin> set a" and "CHR '' '' \<notin> set b" and "CHR '' '' \<notin> set c"
    and "0 \<le> toInt a" and "toInt a \<le> 253"
  shows "outLines (handleMove st (a @ CHR '' '' # b @ CHR '' '' # c @ CHR '' '' # d)) = [''OK''] \<and>
         (\<exists>r. handleMove st (a @ CHR '' '' # b @ CHR '' '' # c @ CHR '' '' # d) =
            [Bus (WritePosEx (toInt a) (clamp 0 4095 (toInt b)) (clamp 0 4095 (toInt c))
                    (clamp 0 255 (toInt d))) r,
             Out ''OK''])"
  using assms by (simp add: handleMove_split)

theorem move_reports_OK_for_every_bus_witness:
  "CHR '' '' \<notin> set ''100'' \<and> CHR '' '' \<notin> set ''2048'' \<and> CHR '' '' \<notin> set ''400'' \<and>
   toInt ''100'' = 100 \<and>
   outLines (handleMove (\<lambda>tr c. - 1) ''100 2048 400 50'') = [''OK'']"
proof -
  have a: "toInt ''100'' = 100"
    by code_simp
  have n: "CHR '' '' \<notin> set ''100''" "CHR '' '' \<notin> set ''2048''" "CHR '' '' \<notin> set ''400''"
    by simp_all
  have "outLines (handleMove (\<lambda>tr c. - 1)
          (''100'' @ CHR '' '' # ''2048'' @ CHR '' '' # ''400'' @ CHR '' '' # ''50'')) = [''OK'']"
    using move_reports_OK_for_every_bus [OF n, of "\<lambda>tr c. - 1" "''50''"] by (simp add: a)
  with n a show ?thesis by simp
qed

section \<open>SYNC_MOVE\<close>

lemma inRange_snoc: "inRange lo hi (xs @ [x]) \<longleftrightarrow> inRange lo hi xs \<and> lo \<le> x \<and> x \<le> hi"
  by (simp add: inRange_def)

text \<open>
  The loop either stops at a tuple it cannot cut, with one error line and no bus call, or
  fills cell after cell up to \<open>n\<close> and makes the one batch write, with every position,
  speed and acceleration clamped.
\<close>

lemma syncMoveLoop_cases:
  assumes "0 \<le> i" and "i \<le> n"
    and "length IDs = nat i" and "length Ps = nat i" and "length Ss = nat i" and "length As = nat i"
    and "inRange 0 4095 Ps" and "inRange 0 4095 Ss" and "inRange 0 255 As"
  shows "syncMoveLoop st n i remain IDs Ps Ss As =
           [Out ''ERROR: not enough arguments for SYNC_MOVE''] \<or>
    (\<exists>ids ps ss as.
       length ids = nat n \<and> length ps = nat n \<and> length ss = nat n \<and> length as = nat n \<and>
       inRange 0 4095 ps \<and> inRange 0 4095 ss \<and> inRange 0 255 as \<and>
       syncMoveLoop st n i remain IDs Ps Ss As =
         [Bus (SyncWritePosEx ids n ps ss as) (st [] (SyncWritePosEx ids n ps ss as)), Out ''OK''])"
  using assms
proof (induction st n i remain IDs Ps Ss As rule: syncMoveLoop.induct)
  case (1 st n i remain IDs Ps Ss As)
  show ?case
  proof (cases "i < n")
    case False
    with "1.prems" have "i = n" by simp
    with "1.prems" show ?thesis
      by (subst syncMoveLoop.simps) (auto simp: call_def println_def)
  next
    case True
    show ?thesis
    proof (cases "syncMoveTuple remain")
      case None
      with True show ?thesis
        by (subst syncMoveLoop.simps) (simp add: println_def)
    next
      case (Some t)
      obtain sid pos speed acc remain' where t: "t = (sid, pos, speed, acc, remain')"
        by (cases t) auto
      have step: "syncMoveLoop st n i remain IDs Ps Ss As =
          syncMoveLoop st n (i + 1) remain' (IDs @ [uint8_t sid])
            (Ps @ [int16_t (clamp 0 4095 pos)]) (Ss @ [uint16_t (clamp 0 4095 speed)])
            (As @ [uint8_t (clamp 0 255 acc)])"
        using True Some t by (subst syncMoveLoop.simps) simp
      have "0 \<le> i + 1" "i + 1 \<le> n"
        using True "1.prems" by auto
      moreover have "length (IDs @ [uint8_t sid]) = nat (i + 1)"
        "length (Ps @ [int16_t (clamp 0 4095 pos)]) = nat (i + 1)"
        "length (Ss @ [uint16_t (clamp 0 4095 speed)]) = nat (i + 1)"
        "length (As @ [uint8_t (clamp 0 255 acc)]) = nat (i + 1)"
        using "1.prems" by (auto simp: nat_add_distrib)
      moreover have "inRange 0 4095 (Ps @ [int16_t (clamp 0 4095 pos)])"
        "inRange 0 4095 (Ss @ [uint16_t (clamp 0 4095 speed)])"
        "inRange 0 255 (As @ [uint8_t (clamp 0 255 acc)])"
        using "1.prems" clamp_range [of 0 4095 pos] clamp_range [of 0 4095 speed]
          clamp_range [of 0 255 acc]
        by (auto simp: inRange_snoc int16_t_clamp uint16_t_clamp uint8_t_clamp)
      ultimately show ?thesis
        unfolding step using "1.IH" [OF True Some t [symmetric]]
        by blast
    qed
  qed
qed

lemma handleSyncMove_nospace:
  "CHR '' '' \<notin> set args \<Longrightarrow> handleSyncMove st args = [Out ''ERROR: SYNC_MOVE usage'']"
  by (simp add: handleSyncMove_def indexOf_notin println_def)

lemma handleSyncMove_split:
  assumes "CHR '' '' \<notin> set a"
  shows "handleSyncMove st (a @ CHR '' '' # rest) =
     (if toInt a < 1 \<or> toInt a > 12 then [Out ''ERROR: n out of range'']
      else syncMoveLoop st (toInt a) 0 (trim rest) [] [] [] [])"
proof -
  have sp: "indexOf (a @ CHR '' '' # rest) CHR '' '' = int (length a)"
    using assms by (rule indexOf_split)
  have n: "substring (a @ CHR '' '' # rest) 0 (int (length a)) = a"
    by (rule substring_prefix)
  have r: "substringFrom (a @ CHR '' '' # rest) (int (length a) + 1) = rest"
    by (rule substringFrom_after)
  show ?thesis
    unfolding handleSyncMove_def sp Let_def n r by (simp add: println_def)
qed

text \<open>What SYNC_MOVE does, for every tail and every bus.\<close>

lemma handleSyncMove_cases:
  "(busCalls (handleSyncMove st args) = [] \<and>
    (\<exists>e. handleSyncMove st args = [Out e] \<and> e \<noteq> ''OK'')) \<or>
   (\<exists>ids n ps ss as r.
      1 \<le> n \<and> n \<le> 12 \<and>
      length ids = nat n \<and> length ps = nat n \<and> length ss = nat n \<and> length as = nat n \<and>
      inRange 0 4095 ps \<and> inRange 0 4095 ss \<and> inRange 0 255 as \<and>
      handleSyncMove st args = [Bus (SyncWritePosEx ids n ps ss as) r, Out ''OK''])"
proof (cases "CHR '' '' \<in> set args")
  case False
  then show ?thesis by (simp add: handleSyncMove_nospace)
next
  case True
  then obtain a rest where args: "args = a @ CHR '' '' # rest" and a: "CHR '' '' \<notin> set a"
    by (auto dest: split_list_first)
  show ?thesis
  proof (cases "toInt a < 1 \<or> toInt a > 12")
    case True
    then show ?thesis by (simp add: args handleSyncMove_split [OF a])
  next
    case False
    then have n: "1 \<le> toInt a" "toInt a \<le> 12" by auto
    have eq: "handleSyncMove st args = syncMoveLoop st (toInt a) 0 (trim rest) [] [] [] []"
      using False by (simp add: args handleSyncMove_split [OF a])
    have "syncMoveLoop st (toInt a) 0 (trim rest) [] [] [] [] =
            [Out ''ERROR: not enough arguments for SYNC_MOVE''] \<or>
      (\<exists>ids ps ss as.
         length ids = nat (toInt a) \<and> length ps = nat (toInt a) \<and>
         length ss = nat (toInt a) \<and> length as = nat (toInt a) \<and>
         inRange 0 4095 ps \<and> inRange 0 4095 ss \<and> inRange 0 255 as \<and>
         syncMoveLoop st (toInt a) 0 (trim rest) [] [] [] [] =
           [Bus (SyncWritePosEx ids (toInt a) ps ss as)
              (st [] (SyncWritePosEx ids (toInt a) ps ss as)), Out ''OK''])"
      using n by (intro syncMoveLoop_cases) (simp_all add: inRange_def)
    then show ?thesis
    proof
      assume "syncMoveLoop st (toInt a) 0 (trim rest) [] [] [] [] =
                [Out ''ERROR: not enough arguments for SYNC_MOVE'']"
      then show ?thesis by (simp add: eq)
    next
      assume "\<exists>ids ps ss as.
         length ids = nat (toInt a) \<and> length ps = nat (toInt a) \<and>
         length ss = nat (toInt a) \<and> length as = nat (toInt a) \<and>
         inRange 0 4095 ps \<and> inRange 0 4095 ss \<and> inRange 0 255 as \<and>
         syncMoveLoop st (toInt a) 0 (trim rest) [] [] [] [] =
           [Bus (SyncWritePosEx ids (toInt a) ps ss as)
              (st [] (SyncWritePosEx ids (toInt a) ps ss as)), Out ''OK'']"
      then show ?thesis unfolding eq using n by blast
    qed
  qed
qed

text \<open>
  C5. A SYNC_MOVE whose count \<open>n\<close> (the text before the first space of the tail) lies
  outside 1..12 prints the error line and makes no bus call; so does a tail with no space at
  all, where no count is read. Every batch write SYNC_MOVE makes has a count between 1 and
  12, and that many cells in each of its four arrays.
\<close>

theorem syncMove_count_1_to_12:
  "(CHR '' '' \<notin> set a \<and> (toInt a < 1 \<or> 12 < toInt a) \<longrightarrow>
      handleSyncMove st (a @ CHR '' '' # rest) = [Out ''ERROR: n out of range'']) \<and>
   (CHR '' '' \<notin> set args \<longrightarrow> handleSyncMove st args = [Out ''ERROR: SYNC_MOVE usage'']) \<and>
   (\<forall>c \<in> set (busCalls (handleSyncMove st args)).
      \<exists>ids n ps ss as. c = SyncWritePosEx ids n ps ss as \<and> 1 \<le> n \<and> n \<le> 12 \<and>
        length ids = nat n \<and> length ps = nat n \<and> length ss = nat n \<and> length as = nat n)"
proof (intro conjI impI)
  assume "CHR '' '' \<notin> set a \<and> (toInt a < 1 \<or> 12 < toInt a)"
  then show "handleSyncMove st (a @ CHR '' '' # rest) = [Out ''ERROR: n out of range'']"
    by (simp add: handleSyncMove_split)
next
  assume "CHR '' '' \<notin> set args"
  then show "handleSyncMove st args = [Out ''ERROR: SYNC_MOVE usage'']"
    by (rule handleSyncMove_nospace)
next
  show "\<forall>c \<in> set (busCalls (handleSyncMove st args)).
      \<exists>ids n ps ss as. c = SyncWritePosEx ids n ps ss as \<and> 1 \<le> n \<and> n \<le> 12 \<and>
        length ids = nat n \<and> length ps = nat n \<and> length ss = nat n \<and> length as = nat n"
    using handleSyncMove_cases [of st args] by auto
qed

theorem syncMove_count_1_to_12_witness:
  "CHR '' '' \<notin> set ''0'' \<and> toInt ''0'' = 0 \<and> toInt ''13'' = 13 \<and>
   handleSyncMove (\<lambda>tr c. 0) ''0 100 2048 400 50'' = [Out ''ERROR: n out of range''] \<and>
   handleSyncMove (\<lambda>tr c. 0) ''13 100 2048 400 50'' = [Out ''ERROR: n out of range''] \<and>
   handleSyncMove (\<lambda>tr c. 0) ''13'' = [Out ''ERROR: SYNC_MOVE usage''] \<and>
   busCalls (handleSyncMove (\<lambda>tr c. 0) ''2 100 2048 400 50 101 1024 400 50'') =
     [SyncWritePosEx [100, 101] 2 [2048, 1024] [400, 400] [50, 50]]"
proof -
  have n0: "toInt ''0'' = 0" and n13: "toInt ''13'' = 13"
    by code_simp+
  have s0: "CHR '' '' \<notin> set ''0''" and s13: "CHR '' '' \<notin> set ''13''"
    by simp_all
  have "handleSyncMove (\<lambda>tr c. 0) (''0'' @ CHR '' '' # ''100 2048 400 50'') =
          [Out ''ERROR: n out of range'']"
    using syncMove_count_1_to_12 [of "''0''" "\<lambda>tr c. 0" "''100 2048 400 50''" "''13''"] s0 n0
    by simp
  moreover have "handleSyncMove (\<lambda>tr c. 0) (''13'' @ CHR '' '' # ''100 2048 400 50'') =
          [Out ''ERROR: n out of range'']"
    using syncMove_count_1_to_12 [of "''13''" "\<lambda>tr c. 0" "''100 2048 400 50''" "''13''"] s13 n13
    by simp
  moreover have "handleSyncMove (\<lambda>tr c. 0) ''13'' = [Out ''ERROR: SYNC_MOVE usage'']"
    using syncMove_count_1_to_12 [of "''13''" "\<lambda>tr c. 0" "''100 2048 400 50''" "''13''"] s13
    by simp
  moreover have "busCalls (handleSyncMove (\<lambda>tr c. 0) ''2 100 2048 400 50 101 1024 400 50'') =
     [SyncWritePosEx [100, 101] 2 [2048, 1024] [400, 400] [50, 50]]"
    by code_simp
  ultimately show ?thesis
    using s0 n0 n13 by simp
qed

lemma syncMoveLoop_tuples:
  assumes "i \<le> n"
  shows "syncMoveLoop st n i remain IDs Ps Ss As =
    (case syncMoveTuples (nat (n - i)) remain of
       None \<Rightarrow> [Out ''ERROR: not enough arguments for SYNC_MOVE'']
     | Some ts \<Rightarrow>
         [Bus (SyncWritePosEx (IDs @ map (\<lambda>(sid, pos, speed, acc). uint8_t sid) ts) n
                 (Ps @ map (\<lambda>(sid, pos, speed, acc). clamp 0 4095 pos) ts)
                 (Ss @ map (\<lambda>(sid, pos, speed, acc). clamp 0 4095 speed) ts)
                 (As @ map (\<lambda>(sid, pos, speed, acc). clamp 0 255 acc) ts))
            (st [] (SyncWritePosEx (IDs @ map (\<lambda>(sid, pos, speed, acc). uint8_t sid) ts) n
                 (Ps @ map (\<lambda>(sid, pos, speed, acc). clamp 0 4095 pos) ts)
                 (Ss @ map (\<lambda>(sid, pos, speed, acc). clamp 0 4095 speed) ts)
                 (As @ map (\<lambda>(sid, pos, speed, acc). clamp 0 255 acc) ts))),
          Out ''OK''])"
  using assms
proof (induction m \<equiv> "nat (n - i)" arbitrary: i remain IDs Ps Ss As)
  case 0
  then have "\<not> i < n" by simp
  with 0 show ?case
    by (subst syncMoveLoop.simps) (simp add: call_def println_def)
next
  case (Suc m)
  then have lt: "i < n" by simp
  from Suc.hyps(2) have m: "nat (n - i) = Suc m" by simp
  show ?case
  proof (cases "syncMoveTuple remain")
    case None
    with lt show ?thesis
      unfolding m by (subst syncMoveLoop.simps) (simp add: println_def)
  next
    case (Some t)
    obtain sid pos speed acc remain' where t: "t = (sid, pos, speed, acc, remain')"
      by (cases t) auto
    have step: "syncMoveLoop st n i remain IDs Ps Ss As =
        syncMoveLoop st n (i + 1) remain' (IDs @ [uint8_t sid])
          (Ps @ [clamp 0 4095 pos]) (Ss @ [clamp 0 4095 speed]) (As @ [clamp 0 255 acc])"
      using lt Some t
      by (subst syncMoveLoop.simps) (simp add: int16_t_clamp uint16_t_clamp uint8_t_clamp)
    have "m = nat (n - (i + 1))" "i + 1 \<le> n"
      using Suc.hyps(2) lt by simp_all
    note IH = Suc.hyps(1) [OF this, of remain' "IDs @ [uint8_t sid]" "Ps @ [clamp 0 4095 pos]"
        "Ss @ [clamp 0 4095 speed]" "As @ [clamp 0 255 acc]"]
    show ?thesis
      unfolding step IH m \<open>m = nat (n - (i + 1))\<close> [symmetric]
      by (simp add: Some t split: option.splits)
  qed
qed



section \<open>SCAN_ID\<close>

lemma scanIDBody_eq:
  "scanIDBody st sid fc tr =
     (if st (tr @ [Delay 300]) (Ping (uint8_t sid)) \<noteq> - 1 then
        (if fc = INT_MAX
         then (None, tr @ [Delay 300, Bus (Ping (uint8_t sid)) (st (tr @ [Delay 300]) (Ping (uint8_t sid))),
                 Out (''FOUND ID '' @ printInt (st (tr @ [Delay 300]) (Ping (uint8_t sid))))])
         else (Some (fc + 1), tr @ [Delay 300, Bus (Ping (uint8_t sid)) (st (tr @ [Delay 300]) (Ping (uint8_t sid))),
                 Out (''FOUND ID '' @ printInt (st (tr @ [Delay 300]) (Ping (uint8_t sid)))), Delay 200]))
      else (Some fc, tr @ [Delay 300, Bus (Ping (uint8_t sid)) (st (tr @ [Delay 300]) (Ping (uint8_t sid)))]))"
  by (simp add: scanIDBody_def call_def println_def delayMicroseconds_def Let_def)

text \<open>One turn adds one ping to the trace.\<close>

lemma scanIDBody_cases:
  obtains b fc' where "scanIDBody st sid fc tr = (fc', tr @ b)" and "busCalls b = [Ping (uint8_t sid)]"
    and "SignedOverflow \<notin> set b"
    and "fc' = None \<longrightarrow> fc = INT_MAX"
    and "\<And>k. fc' = Some k \<Longrightarrow> k = fc + int (pingsFound b)"
    and "pingsFound b \<le> 1"
  using that by (cases "st (tr @ [Delay 300]) (Ping (uint8_t sid)) \<noteq> - 1"; cases "fc = INT_MAX")
    (simp_all add: scanIDBody_eq)

lemma scanIDLoop_prefix:
  "\<exists>ext k. scanIDLoop st sid to fc tr = tr @ ext \<and> busCalls ext = map (\<lambda>i. Ping (uint8_t i)) (take k [sid..to])"
proof (induction st sid to fc tr rule: scanIDLoop.induct)
  case (1 st sid to fc tr)
  show ?case
  proof (cases "sid \<le> to")
    case False
    then show ?thesis
      by (subst scanIDLoop.simps) (simp add: println_def)
  next
    case True
    then have upto: "[sid..to] = sid # [sid + 1..to]"
      by (simp add: upto_rec1)
    obtain b fc' where body: "scanIDBody st sid fc tr = (fc', tr @ b)"
      and calls: "busCalls b = [Ping (uint8_t sid)]"
      by (rule scanIDBody_cases [of st sid fc tr]) blast
    show ?thesis
    proof (cases "fc' = None \<or> sid = INT_MAX")
      case True
      then have "scanIDLoop st sid to fc tr = tr @ (b @ [SignedOverflow])"
        using \<open>sid \<le> to\<close> body by (subst scanIDLoop.simps) (auto split: option.splits)
      moreover have "busCalls (b @ [SignedOverflow]) = map (\<lambda>i. Ping (uint8_t i)) (take 1 [sid..to])"
        by (simp add: busCalls_append calls upto)
      ultimately show ?thesis by blast
    next
      case False
      then obtain k where k: "fc' = Some k" and ne: "sid \<noteq> INT_MAX" by auto
      have step: "scanIDLoop st sid to fc tr = scanIDLoop st (sid + 1) to k (tr @ b)"
        using \<open>sid \<le> to\<close> body k ne by (subst scanIDLoop.simps) simp
      from "1.IH" [OF \<open>sid \<le> to\<close> body [unfolded k, symmetric] refl ne]
      obtain ext j where "scanIDLoop st (sid + 1) to k (tr @ b) = (tr @ b) @ ext"
        and "busCalls ext = map (\<lambda>i. Ping (uint8_t i)) (take j [sid + 1..to])" by blast
      then have "scanIDLoop st sid to fc tr = tr @ (b @ ext)"
        and "busCalls (b @ ext) = map (\<lambda>i. Ping (uint8_t i)) (take (Suc j) [sid..to])"
        by (simp_all add: step busCalls_append calls upto)
      then show ?thesis by blast
    qed
  qed
qed


lemma scanIDLoop_full:
  assumes "to \<le> INT_MAX" and "fc + (to - sid) < INT_MAX"
  shows "busCalls (scanIDLoop st sid to fc tr) = busCalls tr @ map (\<lambda>i. Ping (uint8_t i)) [sid..to]"
  using assms
proof (induction st sid to fc tr rule: scanIDLoop.induct)
  case (1 st sid to fc tr)
  show ?case
  proof (cases "sid \<le> to")
    case False
    then show ?thesis
      by (subst scanIDLoop.simps) (simp add: println_def busCalls_append)
  next
    case True
    then have upto: "[sid..to] = sid # [sid + 1..to]"
      by (simp add: upto_rec1)
    from True "1.prems" have fc: "fc \<noteq> INT_MAX" by auto
    obtain b fc' where body: "scanIDBody st sid fc tr = (fc', tr @ b)"
      and calls: "busCalls b = [Ping (uint8_t sid)]"
      and none: "fc' = None \<longrightarrow> fc = INT_MAX"
      and some: "\<And>k. fc' = Some k \<Longrightarrow> k = fc + int (pingsFound b)"
      and found: "pingsFound b \<le> 1"
      by (rule scanIDBody_cases [of st sid fc tr]) blast
    from none fc obtain k where k: "fc' = Some k" by auto
    show ?thesis
    proof (cases "sid = INT_MAX")
      case True
      with \<open>sid \<le> to\<close> "1.prems" have "to = sid" by simp
      moreover have "scanIDLoop st sid to fc tr = tr @ b @ [SignedOverflow]"
        using \<open>sid \<le> to\<close> body k True by (subst scanIDLoop.simps) simp
      ultimately show ?thesis
        by (simp add: busCalls_append calls)
    next
      case False
      have step: "scanIDLoop st sid to fc tr = scanIDLoop st (sid + 1) to k (tr @ b)"
        using \<open>sid \<le> to\<close> body k False by (subst scanIDLoop.simps) simp
      have "k + (to - (sid + 1)) < INT_MAX"
        using some [OF k] found "1.prems" by simp
      from "1.IH" [OF \<open>sid \<le> to\<close> body [unfolded k, symmetric] refl False "1.prems"(1) this]
      show ?thesis
        by (simp add: step busCalls_append calls upto)
    qed
  qed
qed

lemma scanIDLoop_total:
  assumes "to < INT_MAX" and "fc + (to - sid) < INT_MAX"
  shows "\<exists>ext. scanIDLoop st sid to fc tr =
            tr @ ext @ [Out (''FOUND_TOTAL '' @ printInt (fc + int (pingsFound ext)))] \<and>
          busCalls ext = map (\<lambda>i. Ping (uint8_t i)) [sid..to] \<and> SignedOverflow \<notin> set ext"
  using assms
proof (induction st sid to fc tr rule: scanIDLoop.induct)
  case (1 st sid to fc tr)
  show ?case
  proof (cases "sid \<le> to")
    case False
    then have "scanIDLoop st sid to fc tr =
        tr @ [] @ [Out (''FOUND_TOTAL '' @ printInt (fc + int (pingsFound [])))]"
      by (subst scanIDLoop.simps) (simp add: println_def)
    moreover have "busCalls [] = map (\<lambda>i. Ping (uint8_t i)) [sid..to]"
      using False by simp
    ultimately show ?thesis by (metis empty_iff empty_set)
  next
    case True
    then have upto: "[sid..to] = sid # [sid + 1..to]"
      by (simp add: upto_rec1)
    from True "1.prems" have fc: "fc \<noteq> INT_MAX" and ne: "sid \<noteq> INT_MAX" by auto
    obtain b fc' where body: "scanIDBody st sid fc tr = (fc', tr @ b)"
      and calls: "busCalls b = [Ping (uint8_t sid)]"
      and ovf: "SignedOverflow \<notin> set b"
      and none: "fc' = None \<longrightarrow> fc = INT_MAX"
      and some: "\<And>k. fc' = Some k \<Longrightarrow> k = fc + int (pingsFound b)"
      and found: "pingsFound b \<le> 1"
      by (rule scanIDBody_cases [of st sid fc tr]) blast
    from none fc obtain k where k: "fc' = Some k" by auto
    have step: "scanIDLoop st sid to fc tr = scanIDLoop st (sid + 1) to k (tr @ b)"
      using \<open>sid \<le> to\<close> body k ne by (subst scanIDLoop.simps) simp
    have "k + (to - (sid + 1)) < INT_MAX"
      using some [OF k] found "1.prems" by simp
    from "1.IH" [OF \<open>sid \<le> to\<close> body [unfolded k, symmetric] refl ne "1.prems"(1) this]
    obtain ext where ext: "scanIDLoop st (sid + 1) to k (tr @ b) =
          (tr @ b) @ ext @ [Out (''FOUND_TOTAL '' @ printInt (k + int (pingsFound ext)))]"
      and c: "busCalls ext = map (\<lambda>i. Ping (uint8_t i)) [sid + 1..to]" and o: "SignedOverflow \<notin> set ext"
      by blast
    have "scanIDLoop st sid to fc tr =
        tr @ (b @ ext) @ [Out (''FOUND_TOTAL '' @ printInt (fc + int (pingsFound (b @ ext))))]"
      using ext unfolding step some [OF k] by (simp add: pingsFound_append add.assoc)
    moreover have "busCalls (b @ ext) = map (\<lambda>i. Ping (uint8_t i)) [sid..to]"
      by (simp add: busCalls_append calls c upto)
    moreover have "SignedOverflow \<notin> set (b @ ext)"
      using ovf o by simp
    ultimately show ?thesis by blast
  qed
qed

lemma pings_in_byte:
  "0 \<le> lo \<Longrightarrow> hi \<le> 255 \<Longrightarrow> map (\<lambda>i. Ping (uint8_t i)) [lo..hi] = map Ping [lo..hi]"
  by (rule map_cong) (auto simp: uint8_t_id)

lemma printInt_0: "printInt 0 = ''0''"
  by code_simp

lemma printInt_253: "printInt 253 = ''253''"
  by code_simp

lemma handleScanID_empty:
  "handleScanID st [] = scanIDLoop st 0 253 0 [Out ''SCAN_ID from 0 to 253'']"
  by (simp add: handleScanID_def scanParse_def scanNormalize_def println_def printInt_0 printInt_253)

lemma processCommand_SCAN_ID: "processCommand st ''SCAN_ID'' = handleScanID st []"
proof -
  have "commandName ''SCAN_ID'' = ''SCAN_ID''" by code_simp
  moreover have "argumentTail ''SCAN_ID'' = []" by code_simp
  ultimately show ?thesis
    by (simp add: processCommand_tokens dispatch_def)
qed

text \<open>
  C3. SCAN_ID with an empty tail (the line \<^verbatim>\<open>SCAN_ID\<close>) pings the IDs 0, 1, ..., 253, each
  once and in this order: 254 bus calls, and no other. No counter overflows, and the last
  event is the line \<^verbatim>\<open>FOUND_TOTAL k\<close>, with \<open>k\<close> the number of pings answered.
\<close>

theorem scanID_default_window:
  "processCommand st ''SCAN_ID'' = handleScanID st [] \<and>
   busCalls (handleScanID st []) = map Ping [0..253] \<and>
   length (busCalls (handleScanID st [])) = 254 \<and>
   SignedOverflow \<notin> set (handleScanID st []) \<and>
   last (handleScanID st []) =
     Out (''FOUND_TOTAL '' @ printInt (int (pingsFound (handleScanID st []))))"
proof -
  have "\<exists>ext. scanIDLoop st 0 253 0 [Out ''SCAN_ID from 0 to 253''] =
            [Out ''SCAN_ID from 0 to 253''] @ ext @
              [Out (''FOUND_TOTAL '' @ printInt (0 + int (pingsFound ext)))] \<and>
          busCalls ext = map (\<lambda>i. Ping (uint8_t i)) [0..253] \<and> SignedOverflow \<notin> set ext"
    by (rule scanIDLoop_total) (simp_all add: INT_MAX_def)
  then obtain ext where
    tr: "handleScanID st [] =
           Out ''SCAN_ID from 0 to 253'' # ext @
             [Out (''FOUND_TOTAL '' @ printInt (int (pingsFound ext)))]"
    and calls: "busCalls ext = map Ping [0..253]" and ovf: "SignedOverflow \<notin> set ext"
    by (auto simp: handleScanID_empty pings_in_byte)
  have "pingsFound (handleScanID st []) = pingsFound ext"
    by (simp add: tr pingsFound_append)
  moreover have "busCalls (handleScanID st []) = map Ping [0..253]"
    by (simp add: tr busCalls_append calls)
  moreover have "SignedOverflow \<notin> set (handleScanID st [])"
    using ovf by (simp add: tr)
  moreover have "last (handleScanID st []) =
      Out (''FOUND_TOTAL '' @ printInt (int (pingsFound ext)))"
    by (simp add: tr)
  ultimately show ?thesis
    by (simp add: processCommand_SCAN_ID)
qed

theorem scanID_default_window_witness:
  "busCalls (processCommand (\<lambda>tr c. - 1) ''SCAN_ID'') = map Ping [0..253] \<and>
   last (processCommand (\<lambda>tr c. - 1) ''SCAN_ID'') =
     Out (''FOUND_TOTAL '' @ printInt (int (pingsFound (processCommand (\<lambda>tr c. - 1) ''SCAN_ID''))))"
  using scanID_default_window [of "\<lambda>tr c. - 1"] by simp

text \<open>The window of a scan with two bounds, the first above the second.\<close>

lemma scanParse_two:
  assumes "CHR '' '' \<notin> set a"
  shows "scanParse (a @ CHR '' '' # b) = (toInt a, toInt b)"
proof -
  have sp: "indexOf (a @ CHR '' '' # b) CHR '' '' = int (length a)"
    using assms by (rule indexOf_split)
  show ?thesis
    unfolding scanParse_def sp Let_def
    by (simp add: substring_prefix substringFrom_after)
qed

lemma scanNormalize_inverted:
  "t < f \<Longrightarrow> scanNormalize (f, t) = (min t 253, max f 0)"
  by (auto simp: scanNormalize_def Let_def)

lemma handleScanID_inverted:
  assumes "CHR '' '' \<notin> set a" and "toInt b < toInt a"
  shows "handleScanID st (a @ CHR '' '' # b) =
     scanIDLoop st (min (toInt b) 253) (max (toInt a) 0) 0
       [Out (''SCAN_ID from '' @ printInt (min (toInt b) 253) @ '' to '' @
             printInt (max (toInt a) 0))]"
  using assms
  by (simp add: handleScanID_def scanParse_two scanNormalize_inverted println_def)

text \<open>
  With the first bound above the second, the counter of the loop runs from the second
  bound (lowered to 253 when above) up to the first (raised to 0 when below): the second
  bound is clamped from above and the first from below before the two are swapped, so
  neither end of the swapped window is held inside 0..253. Each ping goes to the low 8
  bits of the counter.
\<close>

lemma scanID_inverted_counter:
  assumes "CHR '' '' \<notin> set a" and "toInt b < toInt a"
    and "max (toInt a) 0 - min (toInt b) 253 < INT_MAX"
  shows "busCalls (handleScanID st (a @ CHR '' '' # b)) =
           map (\<lambda>i. Ping (uint8_t i)) [min (toInt b) 253..max (toInt a) 0]"
proof -
  let ?lo = "min (toInt b) 253" and ?hi = "max (toInt a) 0"
  let ?hd = "[Out (''SCAN_ID from '' @ printInt ?lo @ '' to '' @ printInt ?hi)]"
  have eq: "handleScanID st (a @ CHR '' '' # b) = scanIDLoop st ?lo ?hi 0 ?hd"
    using assms(1,2) by (rule handleScanID_inverted)
  have hi: "?hi \<le> INT_MAX"
    using toInt_bounds [of a] by (simp add: INT_MAX_def)
  show ?thesis
    unfolding eq using scanIDLoop_full [OF hi, of 0 ?lo st ?hd] assms(3) by simp
qed

text \<open>With both bounds in 0..253 the pings go to the IDs from the second bound up to the first.\<close>

lemma scanID_inverted_in_range:
  assumes "CHR '' '' \<notin> set a" and "toInt b < toInt a" and "0 \<le> toInt b" and "toInt a \<le> 253"
  shows "busCalls (handleScanID st (a @ CHR '' '' # b)) = map Ping [toInt b..toInt a]"
proof -
  from assms have "min (toInt b) 253 = toInt b" and "max (toInt a) 0 = toInt a"
    and "max (toInt a) 0 - min (toInt b) 253 < INT_MAX"
    by (auto simp: INT_MAX_def)
  then show ?thesis
    using scanID_inverted_counter [OF assms(1,2), of st] assms(3,4)
    by (simp add: pings_in_byte)
qed

lemma processCommand_SCAN_ID_110_90:
  "processCommand st ''SCAN_ID 110 90'' = handleScanID st (''110'' @ CHR '' '' # ''90'')"
proof -
  have "commandName ''SCAN_ID 110 90'' = ''SCAN_ID''" by code_simp
  moreover have "argumentTail ''SCAN_ID 110 90'' = ''110 90''" by code_simp
  ultimately show ?thesis
    by (simp add: processCommand_tokens dispatch_def)
qed

lemma scanID_110_90: "busCalls (processCommand st ''SCAN_ID 110 90'') = map Ping [90..110]"
proof -
  have a: "toInt ''110'' = 110" and b: "toInt ''90'' = 90" by code_simp+
  have "busCalls (handleScanID st (''110'' @ CHR '' '' # ''90'')) =
      map Ping [toInt ''90''..toInt ''110'']"
    by (rule scanID_inverted_in_range) (simp_all add: a b)
  then show ?thesis
    by (simp add: processCommand_SCAN_ID_110_90 a b)
qed

lemma processCommand_SCAN_ID_258_250:
  "processCommand st ''SCAN_ID 258 250'' = handleScanID st (''258'' @ CHR '' '' # ''250'')"
proof -
  have "commandName ''SCAN_ID 258 250'' = ''SCAN_ID''" by code_simp
  moreover have "argumentTail ''SCAN_ID 258 250'' = ''258 250''" by code_simp
  ultimately show ?thesis
    by (simp add: processCommand_tokens dispatch_def)
qed

text \<open>
  C4. The code breaks the claim where the first bound is above 253 (or the second below
  0). The line \<^verbatim>\<open>SCAN_ID 258 250\<close> has its bounds swapped, but the window that results is
  250..258, not held inside 0..253: for every bus the handler pings the IDs 250, 251, 252,
  253, 254, 255 and then 0, 1, 2, which is not an ascending scan of a window of device IDs.
  For bounds in 0..253 the claim holds (lemma \<open>scanID_inverted_in_range\<close>;
  \<^verbatim>\<open>SCAN_ID 110 90\<close> pings 90..110, lemma \<open>scanID_110_90\<close>).
\<close>

theorem scanID_inverted_window_leaves_range:
  "busCalls (processCommand st ''SCAN_ID 258 250'') =
     [Ping 250, Ping 251, Ping 252, Ping 253, Ping 254, Ping 255, Ping 0, Ping 1, Ping 2] \<and>
   take 1 (processCommand st ''SCAN_ID 258 250'') = [Out ''SCAN_ID from 250 to 258'']"
proof -
  have a: "toInt ''258'' = 258" and b: "toInt ''250'' = 250"
    and pa: "printInt 258 = ''258''" and pb: "printInt 250 = ''250''"
    by code_simp+
  have s: "CHR '' '' \<notin> set ''258''" by simp
  have lt: "toInt ''250'' < toInt ''258''" by (simp add: a b)
  have "busCalls (handleScanID st (''258'' @ CHR '' '' # ''250'')) =
      map (\<lambda>i. Ping (uint8_t i)) [min (toInt ''250'') 253..max (toInt ''258'') 0]"
    using s lt by (rule scanID_inverted_counter) (simp add: a b INT_MAX_def)
  moreover have "map (\<lambda>i. Ping (uint8_t i)) [250..258] =
      [Ping 250, Ping 251, Ping 252, Ping 253, Ping 254, Ping 255, Ping 0, Ping 1, Ping 2]"
    by code_simp
  ultimately have calls: "busCalls (processCommand st ''SCAN_ID 258 250'') =
     [Ping 250, Ping 251, Ping 252, Ping 253, Ping 254, Ping 255, Ping 0, Ping 1, Ping 2]"
    by (simp add: processCommand_SCAN_ID_258_250 a b)
  obtain ext k where "scanIDLoop st 250 258 0 [Out ''SCAN_ID from 250 to 258''] =
      [Out ''SCAN_ID from 250 to 258''] @ ext"
    using scanIDLoop_prefix [of st 250 258 0 "[Out ''SCAN_ID from 250 to 258'']"] by blast
  then have "take 1 (processCommand st ''SCAN_ID 258 250'') = [Out ''SCAN_ID from 250 to 258'']"
    using handleScanID_inverted [OF s lt, of st]
    by (simp add: processCommand_SCAN_ID_258_250 a b pa pb)
  with calls show ?thesis by simp
qed

theorem scanID_inverted_window_leaves_range_witness:
  "busCalls (processCommand (\<lambda>tr c. - 1) ''SCAN_ID 258 250'') =
     [Ping 250, Ping 251, Ping 252, Ping 253, Ping 254, Ping 255, Ping 0, Ping 1, Ping 2] \<and>
   outLines (processCommand (\<lambda>tr c. - 1) ''SCAN_ID 258 250'') =
     [''SCAN_ID from 250 to 258'', ''FOUND_TOTAL 0'']"
proof -
  have "outLines (processCommand (\<lambda>tr c. - 1) ''SCAN_ID 258 250'') =
     [''SCAN_ID from 250 to 258'', ''FOUND_TOTAL 0'']"
    by code_simp
  then show ?thesis
    using scanID_inverted_window_leaves_range [of "\<lambda>tr c. - 1"] by simp
qed

section \<open>STOP_ALL\<close>

lemma stopAllLoop_step:
  assumes "0 \<le> i" and "i < SERVO_COUNT"
  shows "stopAllLoop st i tr =
    (let sid = SERVO_IDS ! nat i;
         tr2 = tr @ [Bus (EnableTorque sid 1) (st tr (EnableTorque sid 1)), Delay 2000];
         r = st tr2 (WriteSpe sid 0)
     in if r = - 1 then tr2 @ [Bus (WriteSpe sid 0) (- 1), Out ''ERROR'']
        else stopAllLoop st (i + 1) (tr2 @ [Bus (WriteSpe sid 0) r, Delay 300]))"
  using assms
  by (subst stopAllLoop.simps)
     (simp add: Let_def call_def println_def delay_def delayMicroseconds_def)

lemma stopAllLoop_trace:
  assumes "0 \<le> i" and "i \<le> SERVO_COUNT"
  shows "\<exists>ext k. stopAllLoop st i tr = tr @ ext \<and> k \<le> length (drop (nat i) SERVO_IDS) \<and>
      busCalls ext =
        concat (map (\<lambda>j. [EnableTorque j 1, WriteSpe j 0]) (take k (drop (nat i) SERVO_IDS))) \<and>
      ((k = length (drop (nat i) SERVO_IDS) \<and> (\<forall>j. Bus (WriteSpe j 0) (- 1) \<notin> set ext) \<and>
        outLines ext = [''OK''] \<and> last ext = Out ''OK'') \<or>
       (\<exists>pre j. ext = pre @ [Bus (WriteSpe j 0) (- 1), Out ''ERROR''] \<and>
          (\<forall>j. Bus (WriteSpe j 0) (- 1) \<notin> set pre) \<and> outLines ext = [''ERROR'']))"
  using assms
proof (induction m \<equiv> "nat (SERVO_COUNT - i)" arbitrary: i tr)
  case 0
  then have i: "i = SERVO_COUNT" by simp
  have "stopAllLoop st i tr = tr @ [Out ''OK'']"
    by (subst stopAllLoop.simps) (simp add: i println_def)
  moreover have "drop (nat i) SERVO_IDS = []"
    by (simp add: i SERVO_COUNT_def)
  ultimately show ?case
    by (intro exI [of _ "[Out ''OK'']"] exI [of _ 0]) simp
next
  case (Suc m)
  then have lt: "i < SERVO_COUNT" by simp
  let ?sid = "SERVO_IDS ! nat i"
  let ?b = "[Bus (EnableTorque ?sid 1) (st tr (EnableTorque ?sid 1)), Delay 2000]"
  let ?r = "st (tr @ ?b) (WriteSpe ?sid 0)"
  have "nat i < length SERVO_IDS"
    using lt Suc.prems by (simp add: SERVO_COUNT_def)
  then have dr: "drop (nat i) SERVO_IDS = ?sid # drop (nat (i + 1)) SERVO_IDS"
    using Suc.prems by (simp add: Cons_nth_drop_Suc nat_add_distrib)
  show ?case
  proof (cases "?r = - 1")
    case True
    have "stopAllLoop st i tr = tr @ (?b @ [Bus (WriteSpe ?sid 0) (- 1), Out ''ERROR''])"
      using stopAllLoop_step [OF Suc.prems(1) lt, of st tr] True by (simp add: Let_def)
    moreover have "busCalls (?b @ [Bus (WriteSpe ?sid 0) (- 1), Out ''ERROR'']) =
        concat (map (\<lambda>j. [EnableTorque j 1, WriteSpe j 0]) (take 1 (drop (nat i) SERVO_IDS)))"
      by (simp add: dr)
    moreover have "\<forall>j. Bus (WriteSpe j 0) (- 1) \<notin> set ?b" by simp
    moreover have "outLines (?b @ [Bus (WriteSpe ?sid 0) (- 1), Out ''ERROR'']) = [''ERROR'']"
      by simp
    moreover have "1 \<le> length (drop (nat i) SERVO_IDS)" by (simp add: dr)
    ultimately show ?thesis by blast
  next
    case False
    let ?c = "?b @ [Bus (WriteSpe ?sid 0) ?r, Delay 300]"
    have step: "stopAllLoop st i tr = stopAllLoop st (i + 1) (tr @ ?c)"
      using stopAllLoop_step [OF Suc.prems(1) lt, of st tr] False by (simp add: Let_def)
    have nf: "\<forall>j. Bus (WriteSpe j 0) (- 1) \<notin> set ?c" using False by simp
    have cc: "busCalls ?c = [EnableTorque ?sid 1, WriteSpe ?sid 0]" by simp
    have oc: "outLines ?c = []" by simp
    have "m = nat (SERVO_COUNT - (i + 1))" "0 \<le> i + 1" "i + 1 \<le> SERVO_COUNT"
      using Suc.hyps(2) lt Suc.prems by auto
    from Suc.hyps(1) [OF this, of "tr @ ?c"]
    obtain ext k where ext: "stopAllLoop st (i + 1) (tr @ ?c) = (tr @ ?c) @ ext"
      and k: "k \<le> length (drop (nat (i + 1)) SERVO_IDS)"
      and calls: "busCalls ext = concat (map (\<lambda>j. [EnableTorque j 1, WriteSpe j 0])
                    (take k (drop (nat (i + 1)) SERVO_IDS)))"
      and ends: "(k = length (drop (nat (i + 1)) SERVO_IDS) \<and>
            (\<forall>j. Bus (WriteSpe j 0) (- 1) \<notin> set ext) \<and>
            outLines ext = [''OK''] \<and> last ext = Out ''OK'') \<or>
          (\<exists>pre j. ext = pre @ [Bus (WriteSpe j 0) (- 1), Out ''ERROR''] \<and>
            (\<forall>j. Bus (WriteSpe j 0) (- 1) \<notin> set pre) \<and> outLines ext = [''ERROR''])"
      by blast
    have e1: "stopAllLoop st i tr = tr @ (?c @ ext)"
      using step ext by simp
    have e2: "Suc k \<le> length (drop (nat i) SERVO_IDS)"
      using k by (simp add: dr)
    have e3: "busCalls (?c @ ext) = concat (map (\<lambda>j. [EnableTorque j 1, WriteSpe j 0])
                (take (Suc k) (drop (nat i) SERVO_IDS)))"
      unfolding busCalls_append cc calls by (simp add: dr)
    from ends have e4: "(Suc k = length (drop (nat i) SERVO_IDS) \<and>
            (\<forall>j. Bus (WriteSpe j 0) (- 1) \<notin> set (?c @ ext)) \<and>
            outLines (?c @ ext) = [''OK''] \<and> last (?c @ ext) = Out ''OK'') \<or>
          (\<exists>pre j. ?c @ ext = pre @ [Bus (WriteSpe j 0) (- 1), Out ''ERROR''] \<and>
            (\<forall>j. Bus (WriteSpe j 0) (- 1) \<notin> set pre) \<and> outLines (?c @ ext) = [''ERROR''])"
    proof
      assume a: "k = length (drop (nat (i + 1)) SERVO_IDS) \<and>
            (\<forall>j. Bus (WriteSpe j 0) (- 1) \<notin> set ext) \<and>
            outLines ext = [''OK''] \<and> last ext = Out ''OK''"
      then have "ext \<noteq> []" by auto
      have "outLines (?c @ ext) = [''OK'']"
        unfolding outLines_append oc using a by simp
      moreover have "last (?c @ ext) = Out ''OK''"
        using a \<open>ext \<noteq> []\<close> by simp
      moreover have "\<forall>j. Bus (WriteSpe j 0) (- 1) \<notin> set (?c @ ext)"
        using a nf by simp
      moreover have "Suc k = length (drop (nat i) SERVO_IDS)"
        using a by (simp add: dr)
      ultimately show ?thesis by blast
    next
      assume "\<exists>pre j. ext = pre @ [Bus (WriteSpe j 0) (- 1), Out ''ERROR''] \<and>
            (\<forall>j. Bus (WriteSpe j 0) (- 1) \<notin> set pre) \<and> outLines ext = [''ERROR'']"
      then obtain pre j where p: "ext = pre @ [Bus (WriteSpe j 0) (- 1), Out ''ERROR'']"
        and np: "\<forall>j. Bus (WriteSpe j 0) (- 1) \<notin> set pre" and o: "outLines ext = [''ERROR'']"
        by blast
      have "?c @ ext = (?c @ pre) @ [Bus (WriteSpe j 0) (- 1), Out ''ERROR'']"
        by (simp add: p)
      moreover have "\<forall>j. Bus (WriteSpe j 0) (- 1) \<notin> set (?c @ pre)"
        using nf np by simp
      moreover have "outLines (?c @ ext) = [''ERROR'']"
        unfolding outLines_append oc o by simp
      ultimately show ?thesis by blast
    qed
    from e1 e2 e3 e4 show ?thesis by blast
  qed
qed

lemma filter_isWriteSpe_pairs:
  "filter isWriteSpe (concat (map (\<lambda>j. [EnableTorque j 1, WriteSpe j 0]) xs)) =
     map (\<lambda>j. WriteSpe j 0) xs"
  by (induction xs) auto

text \<open>
  C6. STOP_ALL walks the roster \<open>SERVO_IDS\<close> in its order. For each entry it enables the
  torque and then makes one speed-zero write; these are its only bus calls. Either \<open>k\<close> is
  the whole roster, no write returned -1 and the one line printed, at the end, is
  \<^verbatim>\<open>OK\<close>; or the write for entry \<open>k\<close> returned -1, no write before it did, the one
  line printed is \<^verbatim>\<open>ERROR\<close> and nothing follows it: no bus call for the entries left.
\<close>

theorem stopAll_roster_order:
  "\<exists>k \<le> length SERVO_IDS.
     busCalls (handleStopAll st) =
       concat (map (\<lambda>j. [EnableTorque j 1, WriteSpe j 0]) (take k SERVO_IDS)) \<and>
     filter isWriteSpe (busCalls (handleStopAll st)) = map (\<lambda>j. WriteSpe j 0) (take k SERVO_IDS) \<and>
     ((k = length SERVO_IDS \<and> (\<forall>j. Bus (WriteSpe j 0) (- 1) \<notin> set (handleStopAll st)) \<and>
       outLines (handleStopAll st) = [''OK''] \<and> last (handleStopAll st) = Out ''OK'') \<or>
      (\<exists>pre j. handleStopAll st = pre @ [Bus (WriteSpe j 0) (- 1), Out ''ERROR''] \<and>
         (\<forall>j. Bus (WriteSpe j 0) (- 1) \<notin> set pre) \<and> outLines (handleStopAll st) = [''ERROR'']))"
proof -
  have "0 \<le> (0::int)" and "0 \<le> SERVO_COUNT"
    by (simp_all add: SERVO_COUNT_def)
  from stopAllLoop_trace [OF this, of st "[]"]
  obtain ext k where "stopAllLoop st 0 [] = [] @ ext" and "k \<le> length (drop (nat 0) SERVO_IDS)"
    and "busCalls ext =
        concat (map (\<lambda>j. [EnableTorque j 1, WriteSpe j 0]) (take k (drop (nat 0) SERVO_IDS)))"
    and "(k = length (drop (nat 0) SERVO_IDS) \<and> (\<forall>j. Bus (WriteSpe j 0) (- 1) \<notin> set ext) \<and>
        outLines ext = [''OK''] \<and> last ext = Out ''OK'') \<or>
       (\<exists>pre j. ext = pre @ [Bus (WriteSpe j 0) (- 1), Out ''ERROR''] \<and>
          (\<forall>j. Bus (WriteSpe j 0) (- 1) \<notin> set pre) \<and> outLines ext = [''ERROR''])"
    by blast
  then have "k \<le> length SERVO_IDS \<and>
     busCalls (handleStopAll st) =
       concat (map (\<lambda>j. [EnableTorque j 1, WriteSpe j 0]) (take k SERVO_IDS)) \<and>
     filter isWriteSpe (busCalls (handleStopAll st)) = map (\<lambda>j. WriteSpe j 0) (take k SERVO_IDS) \<and>
     ((k = length SERVO_IDS \<and> (\<forall>j. Bus (WriteSpe j 0) (- 1) \<notin> set (handleStopAll st)) \<and>
       outLines (handleStopAll st) = [''OK''] \<and> last (handleStopAll st) = Out ''OK'') \<or>
      (\<exists>pre j. handleStopAll st = pre @ [Bus (WriteSpe j 0) (- 1), Out ''ERROR''] \<and>
         (\<forall>j. Bus (WriteSpe j 0) (- 1) \<notin> set pre) \<and> outLines (handleStopAll st) = [''ERROR'']))"
    by (simp add: handleStopAll_def filter_isWriteSpe_pairs)
  then show ?thesis by blast
qed

theorem stopAll_roster_order_witness:
  "busCalls (handleStopAll (\<lambda>tr c. if c = WriteSpe 102 0 then - 1 else 0)) =
     [EnableTorque 100 1, WriteSpe 100 0, EnableTorque 101 1, WriteSpe 101 0,
      EnableTorque 102 1, WriteSpe 102 0] \<and>
   outLines (handleStopAll (\<lambda>tr c. if c = WriteSpe 102 0 then - 1 else 0)) = [''ERROR''] \<and>
   filter isWriteSpe (busCalls (handleStopAll (\<lambda>tr c. 0))) =
     map (\<lambda>j. WriteSpe j 0) [100, 101, 102, 103, 104, 105, 106] \<and>
   outLines (handleStopAll (\<lambda>tr c. 0)) = [''OK'']"
proof -
  have "busCalls (handleStopAll (\<lambda>tr c. if c = WriteSpe 102 0 then - 1 else 0)) =
     [EnableTorque 100 1, WriteSpe 100 0, EnableTorque 101 1, WriteSpe 101 0,
      EnableTorque 102 1, WriteSpe 102 0]"
    by code_simp
  moreover have "outLines (handleStopAll (\<lambda>tr c. if c = WriteSpe 102 0 then - 1 else 0)) = [''ERROR'']"
    by code_simp
  moreover have ok: "outLines (handleStopAll (\<lambda>tr c. 0)) = [''OK'']"
    by code_simp
  moreover have "filter isWriteSpe (busCalls (handleStopAll (\<lambda>tr c. 0))) =
     map (\<lambda>j. WriteSpe j 0) [100, 101, 102, 103, 104, 105, 106]"
  proof -
    obtain k where k: "k \<le> length SERVO_IDS"
      and w: "filter isWriteSpe (busCalls (handleStopAll (\<lambda>tr c. 0))) =
                map (\<lambda>j. WriteSpe j 0) (take k SERVO_IDS)"
      and e: "(k = length SERVO_IDS \<and> outLines (handleStopAll (\<lambda>tr c. 0)) = [''OK'']) \<or>
              outLines (handleStopAll (\<lambda>tr c. 0)) = [''ERROR'']"
      using stopAll_roster_order [of "\<lambda>tr c. 0"] by blast
    from e ok have "k = length SERVO_IDS" by auto
    with w show ?thesis by (simp add: SERVO_IDS_def)
  qed
  ultimately show ?thesis by simp
qed

section \<open>Usage errors and permissive numbers\<close>

lemma saturate_0: "saturate 0 = 0"
  by (simp add: saturate_def INT_MAX_def INT_MIN_def)

lemma countSpaces_0: "countSpaces s = 0 \<longleftrightarrow> CHR '' '' \<notin> set s"
  by (simp add: countSpaces_def count_list_0_iff)

lemma countSpaces_split:
  "CHR '' '' \<notin> set a \<Longrightarrow> countSpaces (a @ CHR '' '' # r) = Suc (countSpaces r)"
  by (induction a) (auto simp: countSpaces_def)

lemma handleMove_nospace:
  "CHR '' '' \<notin> set args \<Longrightarrow>
   handleMove st args = [Out ''ERROR: MOVE usage: MOVE <id> <pos> <speed> <acc>'']"
  by (simp add: handleMove_def indexOf_notin println_def Let_def)

lemma handleMove_one_space:
  assumes "CHR '' '' \<notin> set a" and "CHR '' '' \<notin> set b"
  shows "handleMove st (a @ CHR '' '' # b) =
           [Out ''ERROR: MOVE usage: MOVE <id> <pos> <speed> <acc>'']"
proof -
  have sp1: "indexOf (a @ CHR '' '' # b) CHR '' '' = int (length a)"
    using assms(1) by (rule indexOf_split)
  have sp2: "indexOfFrom (a @ CHR '' '' # b) CHR '' '' (int (length a) + 1) = - 1"
    using assms(2) by (rule indexOfFrom_next_none)
  show ?thesis
    unfolding handleMove_def sp1 Let_def sp2 by (simp add: println_def)
qed

lemma handleMove_two_spaces:
  assumes "CHR '' '' \<notin> set a" and "CHR '' '' \<notin> set b" and "CHR '' '' \<notin> set c"
  shows "handleMove st (a @ CHR '' '' # b @ CHR '' '' # c) =
           [Out ''ERROR: MOVE usage: MOVE <id> <pos> <speed> <acc>'']"
proof -
  let ?args = "a @ CHR '' '' # b @ CHR '' '' # c"
  let ?ab = "a @ CHR '' '' # b"
  have len: "int (length ?ab) = int (length a) + 1 + int (length b)" by simp
  have sp1: "indexOf ?args CHR '' '' = int (length a)"
    using assms(1) by (rule indexOf_split)
  have sp2: "indexOfFrom ?args CHR '' '' (int (length a) + 1) = int (length a) + 1 + int (length b)"
    using assms(2) by (rule indexOfFrom_next)
  have sp3: "indexOfFrom ?args CHR '' '' (int (length a) + 1 + int (length b) + 1) = - 1"
    using indexOfFrom_next_none [OF assms(3), of ?ab "CHR '' ''"] unfolding len by simp
  show ?thesis
    unfolding handleMove_def sp1 Let_def sp2 sp3 by (simp add: println_def)
qed

lemma handleMove_usage_iff:
  "''ERROR: MOVE usage: MOVE <id> <pos> <speed> <acc>'' \<in> set (outLines (handleMove st args))
     \<longleftrightarrow> countSpaces args < 3"
proof (cases "CHR '' '' \<in> set args")
  case False
  then show ?thesis by (simp add: handleMove_nospace countSpaces_0 [symmetric])
next
  case True
  then obtain a r1 where 1: "args = a @ CHR '' '' # r1" and a: "CHR '' '' \<notin> set a"
    by (auto dest: split_list_first)
  show ?thesis
  proof (cases "CHR '' '' \<in> set r1")
    case False
    then have "countSpaces args = 1"
      using a by (simp add: 1 countSpaces_split countSpaces_0)
    then show ?thesis
      using a False by (simp add: 1 handleMove_one_space)
  next
    case True
    then obtain b r2 where 2: "r1 = b @ CHR '' '' # r2" and b: "CHR '' '' \<notin> set b"
      by (auto dest: split_list_first)
    show ?thesis
    proof (cases "CHR '' '' \<in> set r2")
      case False
      then have "countSpaces args = 2"
        using a b by (simp add: 1 2 countSpaces_split countSpaces_0)
      then show ?thesis
        using a b False by (simp add: 1 2 handleMove_two_spaces)
    next
      case True
      then obtain c d where 3: "r2 = c @ CHR '' '' # d" and c: "CHR '' '' \<notin> set c"
        by (auto dest: split_list_first)
      have "countSpaces args \<ge> 3"
        using a b c by (simp add: 1 2 3 countSpaces_split)
      then show ?thesis
        using a b c by (simp add: 1 2 3 handleMove_split)
    qed
  qed
qed

lemma handleSetID_nospace:
  "CHR '' '' \<notin> set args \<Longrightarrow>
   handleSetID st args = [Out ''ERROR: SET_ID usage: SET_ID <oldId> <newId>'']"
  by (simp add: handleSetID_def indexOf_notin println_def)

lemma handleSetID_usage_iff:
  "''ERROR: SET_ID usage: SET_ID <oldId> <newId>'' \<in> set (outLines (handleSetID st args))
     \<longleftrightarrow> countSpaces args = 0"
proof (cases "CHR '' '' \<in> set args")
  case False
  then show ?thesis by (simp add: handleSetID_nospace countSpaces_0)
next
  case True
  then obtain a r where 1: "args = a @ CHR '' '' # r" and a: "CHR '' '' \<notin> set a"
    by (auto dest: split_list_first)
  then show ?thesis
    by (simp add: handleSetID_split countSpaces_split Let_def)
qed

lemma int16_t_speed: "int16_t (clamp SPEED_MIN SPEED_MAX x) = clamp SPEED_MIN SPEED_MAX x"
  using clamp_range [of SPEED_MIN SPEED_MAX x]
  by (simp add: int16_t_id SPEED_MIN_def SPEED_MAX_def)

lemma handleSpeed_nospace:
  "CHR '' '' \<notin> set args \<Longrightarrow>
   handleSpeed st args = [Out ''ERROR: SPEED usage: SPEED <id> <speed>'']"
  by (simp add: handleSpeed_def indexOf_notin println_def)

lemma handleSpeed_split:
  assumes "CHR '' '' \<notin> set a"
  shows "handleSpeed st (a @ CHR '' '' # b) =
     (if toInt a < 0 \<or> toInt a > 253 then [Out ''ERROR: invalid ID'']
      else
        let e = [Bus (EnableTorque (toInt a) 1) (st [] (EnableTorque (toInt a) 1)), Delay 2000];
            w = WriteSpe (toInt a) (clamp SPEED_MIN SPEED_MAX (toInt b))
        in e @ [Bus w (st e w), Out (if st e w \<noteq> - 1 then ''OK'' else ''ERROR'')])"
proof -
  have sp: "indexOf (a @ CHR '' '' # b) CHR '' '' = int (length a)"
    using assms by (rule indexOf_split)
  show ?thesis
    unfolding handleSpeed_def sp Let_def
    by (simp add: substring_prefix substringFrom_after call_def println_def delay_def
          uint8_t_id int16_t_speed)
qed

lemma handleSpeed_usage_iff:
  "''ERROR: SPEED usage: SPEED <id> <speed>'' \<in> set (outLines (handleSpeed st args))
     \<longleftrightarrow> countSpaces args = 0"
proof (cases "CHR '' '' \<in> set args")
  case False
  then show ?thesis by (simp add: handleSpeed_nospace countSpaces_0)
next
  case True
  then obtain a r where 1: "args = a @ CHR '' '' # r" and a: "CHR '' '' \<notin> set a"
    by (auto dest: split_list_first)
  then show ?thesis
    by (simp add: handleSpeed_split countSpaces_split Let_def)
qed

lemma handleSyncMove_usage_iff:
  "''ERROR: SYNC_MOVE usage'' \<in> set (outLines (handleSyncMove st args))
     \<longleftrightarrow> countSpaces args = 0"
proof (cases "CHR '' '' \<in> set args")
  case False
  then show ?thesis by (simp add: handleSyncMove_nospace countSpaces_0)
next
  case True
  then obtain a r where 1: "args = a @ CHR '' '' # r" and a: "CHR '' '' \<notin> set a"
    by (auto dest: split_list_first)
  have "handleSyncMove st args = [Out ''ERROR: n out of range''] \<or>
        handleSyncMove st args = [Out ''ERROR: not enough arguments for SYNC_MOVE''] \<or>
        (\<exists>c r. handleSyncMove st args = [Bus c r, Out ''OK''])"
  proof (cases "toInt a < 1 \<or> toInt a > 12")
    case True
    then show ?thesis by (simp add: 1 handleSyncMove_split [OF a])
  next
    case False
    then have "handleSyncMove st args = syncMoveLoop st (toInt a) 0 (trim r) [] [] [] []"
      by (simp add: 1 handleSyncMove_split [OF a])
    moreover have "0 \<le> (0::int)" "0 \<le> toInt a" using False by auto
    ultimately show ?thesis
      using syncMoveLoop_cases [of 0 "toInt a" "[]" "[]" "[]" "[]" st "trim r"]
      by (auto simp: inRange_def)
  qed
  then show ?thesis
    using a by (auto simp: 1 countSpaces_split)
qed

lemma syncSpeedLoop_step:
  assumes "i < n"
  shows "syncSpeedLoop st n i remain tr =
    (case syncSpeedPair (\<not> i < n - 1) remain of
       None \<Rightarrow> tr @ [Out ''ERROR: not enough args'']
     | Some (sid, speed, remain') \<Rightarrow>
         if sid < 0 \<or> sid > 253 then tr @ [Out ''ERROR: invalid ID'']
         else
           let e = [Bus (EnableTorque sid 1) (st tr (EnableTorque sid 1)), Delay 2000];
               w = WriteSpe sid (clamp SPEED_MIN SPEED_MAX speed);
               r = st (tr @ e) w
           in if r = - 1 then tr @ e @ [Bus w (- 1), Out ''ERROR'']
              else syncSpeedLoop st n (i + 1) remain' (tr @ e @ [Bus w r, Delay 300]))"
  using assms
  by (subst syncSpeedLoop.simps)
     (auto simp: Let_def call_def println_def delay_def delayMicroseconds_def uint8_t_id
        int16_t_speed split: option.splits)

lemma syncSpeedLoop_trace:
  "\<exists>ext l. syncSpeedLoop st n i remain tr = tr @ ext @ [Out l] \<and>
     l \<in> set [''ERROR: not enough args'', ''ERROR: invalid ID'', ''ERROR'', ''OK''] \<and>
     outLines ext = [] \<and> idsValid ext"
proof (induction m \<equiv> "nat (n - i)" arbitrary: i remain tr)
  case 0
  then have "\<not> i < n" by simp
  then have "syncSpeedLoop st n i remain tr = tr @ [] @ [Out ''OK'']"
    by (subst syncSpeedLoop.simps) (simp add: println_def)
  then show ?case
    by (intro exI [of _ "[]"] exI [of _ "''OK''"]) simp
next
  case (Suc m)
  then have lt: "i < n" by simp
  note step = syncSpeedLoop_step [OF lt, of st remain tr]
  show ?case
  proof (cases "syncSpeedPair (\<not> i < n - 1) remain")
    case None
    then have "syncSpeedLoop st n i remain tr = tr @ [] @ [Out ''ERROR: not enough args'']"
      using step by simp
    then show ?thesis
      by (intro exI [of _ "[]"] exI [of _ "''ERROR: not enough args''"]) simp
  next
    case (Some t)
    then obtain sid speed remain' where t: "syncSpeedPair (\<not> i < n - 1) remain = Some (sid, speed, remain')"
      by (cases t) auto
    show ?thesis
    proof (cases "sid < 0 \<or> sid > 253")
      case True
      then have "syncSpeedLoop st n i remain tr = tr @ [] @ [Out ''ERROR: invalid ID'']"
        using step t by simp
      then show ?thesis
        by (intro exI [of _ "[]"] exI [of _ "''ERROR: invalid ID''"]) simp
    next
      case False
      let ?e = "[Bus (EnableTorque sid 1) (st tr (EnableTorque sid 1)), Delay 2000]"
      let ?w = "WriteSpe sid (clamp SPEED_MIN SPEED_MAX speed)"
      let ?r = "st (tr @ ?e) ?w"
      from False have sid: "validId sid" by (simp add: validId_def)
      show ?thesis
      proof (cases "?r = - 1")
        case True
        then have "syncSpeedLoop st n i remain tr = tr @ (?e @ [Bus ?w (- 1)]) @ [Out ''ERROR'']"
          using step t False by (simp add: Let_def)
        moreover have "outLines (?e @ [Bus ?w (- 1)]) = []" "idsValid (?e @ [Bus ?w (- 1)])"
          using sid by simp_all
        ultimately show ?thesis
          by (intro exI [of _ "?e @ [Bus ?w (- 1)]"] exI [of _ "''ERROR''"]) simp
      next
        case ok: False
        let ?c = "?e @ [Bus ?w ?r, Delay 300]"
        have eq: "syncSpeedLoop st n i remain tr = syncSpeedLoop st n (i + 1) remain' (tr @ ?c)"
          using step t False ok by (simp add: Let_def)
        have "m = nat (n - (i + 1))" using Suc.hyps(2) by simp
        from Suc.hyps(1) [OF this, of remain' "tr @ ?c"]
        obtain ext l where ext: "syncSpeedLoop st n (i + 1) remain' (tr @ ?c) = (tr @ ?c) @ ext @ [Out l]"
          and l: "l \<in> set [''ERROR: not enough args'', ''ERROR: invalid ID'', ''ERROR'', ''OK'']"
          and o: "outLines ext = []" and v: "idsValid ext"
          by blast
        have "syncSpeedLoop st n i remain tr = tr @ (?c @ ext) @ [Out l]"
          using eq ext by simp
        moreover have "outLines (?c @ ext) = []"
          unfolding outLines_append o by simp
        moreover have "idsValid (?c @ ext)"
          unfolding idsValid_append using v sid by simp
        ultimately show ?thesis using l by blast
      qed
    qed
  qed
qed

lemma handleSyncSpeed_nospace:
  "CHR '' '' \<notin> set args \<Longrightarrow> handleSyncSpeed st args = [Out ''ERROR: SYNC_SPEED usage'']"
  by (simp add: handleSyncSpeed_def indexOf_notin println_def)

lemma handleSyncSpeed_split:
  assumes "CHR '' '' \<notin> set a"
  shows "handleSyncSpeed st (a @ CHR '' '' # rest) =
     (if toInt a < 1 \<or> toInt a > 12 then [Out ''ERROR: n out of range'']
      else syncSpeedLoop st (toInt a) 0 (trim rest) [])"
proof -
  have sp: "indexOf (a @ CHR '' '' # rest) CHR '' '' = int (length a)"
    using assms by (rule indexOf_split)
  show ?thesis
    unfolding handleSyncSpeed_def sp Let_def
    by (simp add: println_def substring_prefix substringFrom_after)
qed

lemma handleSyncSpeed_trace:
  "\<exists>ext l. handleSyncSpeed st args = ext @ [Out l] \<and> outLines ext = [] \<and> idsValid ext \<and>
     (l = ''ERROR: SYNC_SPEED usage'' \<longleftrightarrow> CHR '' '' \<notin> set args)"
proof (cases "CHR '' '' \<in> set args")
  case False
  then have "handleSyncSpeed st args = [] @ [Out ''ERROR: SYNC_SPEED usage'']"
    by (simp add: handleSyncSpeed_nospace)
  then show ?thesis using False
    by (intro exI [of _ "[]"] exI [of _ "''ERROR: SYNC_SPEED usage''"]) simp
next
  case True
  then obtain a r where 1: "args = a @ CHR '' '' # r" and a: "CHR '' '' \<notin> set a"
    by (auto dest: split_list_first)
  show ?thesis
  proof (cases "toInt a < 1 \<or> toInt a > 12")
    case True
    then have "handleSyncSpeed st args = [] @ [Out ''ERROR: n out of range'']"
      by (simp add: 1 handleSyncSpeed_split [OF a])
    then show ?thesis using \<open>CHR '' '' \<in> set args\<close>
      by (intro exI [of _ "[]"] exI [of _ "''ERROR: n out of range''"]) simp
  next
    case False
    then have eq: "handleSyncSpeed st args = syncSpeedLoop st (toInt a) 0 (trim r) []"
      by (simp add: 1 handleSyncSpeed_split [OF a])
    from syncSpeedLoop_trace [of st "toInt a" 0 "trim r" "[]"]
    obtain ext l where "syncSpeedLoop st (toInt a) 0 (trim r) [] = [] @ ext @ [Out l]"
      and "l \<in> set [''ERROR: not enough args'', ''ERROR: invalid ID'', ''ERROR'', ''OK'']"
      and "outLines ext = []" and "idsValid ext"
      by blast
    then show ?thesis using \<open>CHR '' '' \<in> set args\<close> unfolding eq
      by (intro exI [of _ ext] exI [of _ l]) auto
  qed
qed

lemma handleSyncSpeed_usage_iff:
  "''ERROR: SYNC_SPEED usage'' \<in> set (outLines (handleSyncSpeed st args))
     \<longleftrightarrow> countSpaces args = 0"
proof -
  obtain ext l where "handleSyncSpeed st args = ext @ [Out l]" and "outLines ext = []"
    and "l = ''ERROR: SYNC_SPEED usage'' \<longleftrightarrow> CHR '' '' \<notin> set args"
    using handleSyncSpeed_trace [of st args] by blast
  then show ?thesis
    by (auto simp: outLines_append countSpaces_0)
qed

lemma leadingDigits_start: "(case s of [] \<Rightarrow> True | d # ds \<Rightarrow> \<not> isdigit d) \<Longrightarrow> leadingDigits s acc = acc"
  by (cases s) auto

lemma toInt_no_number:
  assumes "\<not> hasNumber s"
  shows "toInt s = 0"
proof (cases "dropWhile isspace s")
  case Nil
  show ?thesis unfolding toInt_def Nil by simp
next
  case (Cons c cs)
  show ?thesis
  proof (cases "c = CHR ''-'' \<or> c = CHR ''+''")
    case True
    with assms Cons have "case cs of [] \<Rightarrow> True | d # ds \<Rightarrow> \<not> isdigit d"
      by (auto simp: hasNumber_def split: list.splits)
    then have "leadingDigits cs 0 = 0" by (rule leadingDigits_start)
    with True show ?thesis
      unfolding toInt_def Cons by (auto simp: saturate_0)
  next
    case False
    with assms Cons have "\<not> isdigit c"
      by (simp add: hasNumber_def)
    with False show ?thesis
      unfolding toInt_def Cons by (simp add: saturate_0)
  qed
qed

text \<open>Cutting one tuple of SYNC_MOVE.\<close>

lemma syncMoveTuple_nospace:
  "CHR '' '' \<notin> set remain \<Longrightarrow> syncMoveTuple remain = None"
  by (simp add: syncMoveTuple_def indexOf_notin Let_def)

lemma syncMoveTuple_one_space:
  assumes "CHR '' '' \<notin> set a" and "CHR '' '' \<notin> set b"
  shows "syncMoveTuple (a @ CHR '' '' # b) = None"
proof -
  have sp1: "indexOf (a @ CHR '' '' # b) CHR '' '' = int (length a)"
    using assms(1) by (rule indexOf_split)
  have sp2: "indexOfFrom (a @ CHR '' '' # b) CHR '' '' (int (length a) + 1) = - 1"
    using assms(2) by (rule indexOfFrom_next_none)
  show ?thesis
    unfolding syncMoveTuple_def sp1 Let_def sp2 by simp
qed

lemma syncMoveTuple_two_spaces:
  assumes "CHR '' '' \<notin> set a" and "CHR '' '' \<notin> set b" and "CHR '' '' \<notin> set c"
  shows "syncMoveTuple (a @ CHR '' '' # b @ CHR '' '' # c) = None"
proof -
  let ?args = "a @ CHR '' '' # b @ CHR '' '' # c"
  let ?ab = "a @ CHR '' '' # b"
  have len: "int (length ?ab) = int (length a) + 1 + int (length b)" by simp
  have sp1: "indexOf ?args CHR '' '' = int (length a)"
    using assms(1) by (rule indexOf_split)
  have sp2: "indexOfFrom ?args CHR '' '' (int (length a) + 1) = int (length a) + 1 + int (length b)"
    using assms(2) by (rule indexOfFrom_next)
  have sp3: "indexOfFrom ?args CHR '' '' (int (length a) + 1 + int (length b) + 1) = - 1"
    using indexOfFrom_next_none [OF assms(3), of ?ab "CHR '' ''"] unfolding len by simp
  show ?thesis
    unfolding syncMoveTuple_def sp1 Let_def sp2 sp3 by simp
qed

lemma syncMoveTuple_fields:
  assumes "CHR '' '' \<notin> set i" and "CHR '' '' \<notin> set p" and "CHR '' '' \<notin> set s"
    and "CHR '' '' \<notin> set a"
  shows "syncMoveTuple (i @ CHR '' '' # p @ CHR '' '' # s @ CHR '' '' # a) =
           Some (toInt i, toInt p, toInt s, toInt a, [])"
    and "syncMoveTuple (i @ CHR '' '' # p @ CHR '' '' # s @ CHR '' '' # a @ CHR '' '' # r) =
           Some (toInt i, toInt p, toInt s, toInt a, trim r)"
proof -
  let ?ip = "i @ CHR '' '' # p"
  let ?ips = "i @ CHR '' '' # p @ CHR '' '' # s"
  have len: "int (length ?ip) = int (length i) + 1 + int (length p)" by simp
  have len3: "int (length ?ips) = int (length i) + 1 + int (length p) + 1 + int (length s)"
    by simp
  have tr: "trim [] = []" by (simp add: trim_def)
  {
    fix t
    let ?x = "i @ CHR '' '' # p @ CHR '' '' # s @ CHR '' '' # t"
    have sp1: "indexOf ?x CHR '' '' = int (length i)"
      using assms(1) by (rule indexOf_split)
    have sp2: "indexOfFrom ?x CHR '' '' (int (length i) + 1) = int (length i) + 1 + int (length p)"
      using assms(2) by (rule indexOfFrom_next)
    have sp3: "indexOfFrom ?x CHR '' '' (int (length i) + 1 + int (length p) + 1)
               = int (length i) + 1 + int (length p) + 1 + int (length s)"
      using indexOfFrom_next [OF assms(3), of ?ip "CHR '' ''" t] unfolding len by simp
    have f1: "substring ?x 0 (int (length i)) = i"
      by (rule substring_prefix)
    have f2: "substring ?x (int (length i) + 1) (int (length i) + 1 + int (length p)) = p"
      by (rule substring_next)
    have f3: "substring ?x (int (length i) + 1 + int (length p) + 1)
              (int (length i) + 1 + int (length p) + 1 + int (length s)) = s"
      using substring_next [of ?ip "CHR '' ''" s "CHR '' '' # t"] unfolding len by simp
    have f4: "substringFrom ?x (int (length i) + 1 + int (length p) + 1 + int (length s) + 1) = t"
      using substringFrom_after [of ?ips "CHR '' ''" t]
      by (simp add: add.commute add.left_commute)
    note sp1 sp2 sp3 f1 f2 f3 f4
  }
  note cut = this
  have nx: "indexOfFrom (i @ CHR '' '' # p @ CHR '' '' # s @ CHR '' '' # a) CHR '' ''
      (int (length i) + 1 + int (length p) + 1 + int (length s) + 1) = - 1"
    using indexOfFrom_next_none [OF assms(4), of ?ips "CHR '' ''"] unfolding len3 by simp
  show "syncMoveTuple (i @ CHR '' '' # p @ CHR '' '' # s @ CHR '' '' # a) =
           Some (toInt i, toInt p, toInt s, toInt a, [])"
    unfolding syncMoveTuple_def cut Let_def nx by (simp add: tr)
  let ?y = "i @ CHR '' '' # p @ CHR '' '' # s @ CHR '' '' # a @ CHR '' '' # r"
  have nx2: "indexOfFrom ?y CHR '' ''
      (int (length i) + 1 + int (length p) + 1 + int (length s) + 1) =
      int (length i) + 1 + int (length p) + 1 + int (length s) + 1 + int (length a)"
    using indexOfFrom_next [OF assms(4), of ?ips "CHR '' ''" r] unfolding len3 by simp
  have f5: "substring ?y (int (length i) + 1 + int (length p) + 1 + int (length s) + 1)
      (int (length i) + 1 + int (length p) + 1 + int (length s) + 1 + int (length a)) = a"
    using substring_next [of ?ips "CHR '' ''" a "CHR '' '' # r"] unfolding len3 by simp
  have f6: "substringFrom ?y
      (int (length i) + 1 + int (length p) + 1 + int (length s) + 1 + int (length a) + 1) = r"
    using substringFrom_after [of "?ips @ CHR '' '' # a" "CHR '' ''" r]
    by (simp add: add.commute add.left_commute)
  show "syncMoveTuple ?y = Some (toInt i, toInt p, toInt s, toInt a, trim r)"
    unfolding syncMoveTuple_def cut [of "a @ CHR '' '' # r"] Let_def nx2 f5 f6 by simp
qed

lemma syncMoveTuple_None_iff: "syncMoveTuple remain = None \<longleftrightarrow> countSpaces remain < 3"
proof (cases "CHR '' '' \<in> set remain")
  case False
  then show ?thesis by (simp add: syncMoveTuple_nospace countSpaces_0 [symmetric])
next
  case True
  then obtain a r1 where 1: "remain = a @ CHR '' '' # r1" and a: "CHR '' '' \<notin> set a"
    by (auto dest: split_list_first)
  show ?thesis
  proof (cases "CHR '' '' \<in> set r1")
    case False
    then have "countSpaces remain = 1"
      using a by (simp add: 1 countSpaces_split countSpaces_0)
    then show ?thesis
      using a False by (simp add: 1 syncMoveTuple_one_space)
  next
    case True
    then obtain b r2 where 2: "r1 = b @ CHR '' '' # r2" and b: "CHR '' '' \<notin> set b"
      by (auto dest: split_list_first)
    show ?thesis
    proof (cases "CHR '' '' \<in> set r2")
      case False
      then have "countSpaces remain = 2"
        using a b by (simp add: 1 2 countSpaces_split countSpaces_0)
      then show ?thesis
        using a b False by (simp add: 1 2 syncMoveTuple_two_spaces)
    next
      case True
      then obtain c r3 where 3: "r2 = c @ CHR '' '' # r3" and c: "CHR '' '' \<notin> set c"
        by (auto dest: split_list_first)
      have n: "countSpaces remain \<ge> 3"
        using a b c by (simp add: 1 2 3 countSpaces_split)
      show ?thesis
      proof (cases "CHR '' '' \<in> set r3")
        case False
        then show ?thesis
          using n a b c by (simp add: 1 2 3 syncMoveTuple_fields(1))
      next
        case True
        then obtain d r4 where 4: "r3 = d @ CHR '' '' # r4" and d: "CHR '' '' \<notin> set d"
          by (auto dest: split_list_first)
        then show ?thesis
          using n a b c by (simp add: 1 2 3 syncMoveTuple_fields(2))
      qed
    qed
  qed
qed

text \<open>Cutting one pair of SYNC_SPEED.\<close>

lemma syncSpeedPair_nospace:
  "CHR '' '' \<notin> set remain \<Longrightarrow> syncSpeedPair lastTurn remain = None"
  by (simp add: syncSpeedPair_def indexOf_notin)

lemma syncSpeedPair_split:
  assumes "CHR '' '' \<notin> set i"
  shows "syncSpeedPair lastTurn (i @ CHR '' '' # r) =
     (let remain1 = trim r; spB = indexOf remain1 CHR '' '' in
      Some (toInt i,
            toInt (if spB \<ge> 0 \<and> \<not> lastTurn then substring remain1 0 spB else remain1),
            if spB \<ge> 0 \<and> \<not> lastTurn then trim (substringFrom remain1 (spB + 1)) else []))"
proof -
  have sp: "indexOf (i @ CHR '' '' # r) CHR '' '' = int (length i)"
    using assms by (rule indexOf_split)
  show ?thesis
    unfolding syncSpeedPair_def sp Let_def
    by (simp add: substring_prefix substringFrom_after)
qed

lemma syncSpeedPair_fields:
  assumes "CHR '' '' \<notin> set i"
  shows "lastTurn \<or> CHR '' '' \<notin> set (trim r) \<Longrightarrow>
           syncSpeedPair lastTurn (i @ CHR '' '' # r) = Some (toInt i, toInt (trim r), [])"
    and "CHR '' '' \<notin> set v \<Longrightarrow> trim r = v @ CHR '' '' # r2 \<Longrightarrow>
           syncSpeedPair False (i @ CHR '' '' # r) = Some (toInt i, toInt v, trim r2)"
proof -
  show "syncSpeedPair lastTurn (i @ CHR '' '' # r) = Some (toInt i, toInt (trim r), [])"
    if "lastTurn \<or> CHR '' '' \<notin> set (trim r)"
    using that by (auto simp: syncSpeedPair_split [OF assms] Let_def indexOf_notin)
  show "syncSpeedPair False (i @ CHR '' '' # r) = Some (toInt i, toInt v, trim r2)"
    if v: "CHR '' '' \<notin> set v" and t: "trim r = v @ CHR '' '' # r2"
  proof -
    have sp: "indexOf (trim r) CHR '' '' = int (length v)"
      unfolding t using v by (rule indexOf_split)
    show ?thesis
      unfolding syncSpeedPair_split [OF assms] Let_def sp
      by (simp add: t substring_prefix substringFrom_after)
  qed
qed

lemma syncSpeedPair_None_iff:
  "syncSpeedPair lastTurn remain = None \<longleftrightarrow> countSpaces remain = 0"
proof (cases "CHR '' '' \<in> set remain")
  case False
  then show ?thesis by (simp add: syncSpeedPair_nospace countSpaces_0)
next
  case True
  then obtain a r where 1: "remain = a @ CHR '' '' # r" and a: "CHR '' '' \<notin> set a"
    by (auto dest: split_list_first)
  then show ?thesis
    by (simp add: syncSpeedPair_split countSpaces_split Let_def)
qed

lemma syncSpeedLoop_end: "\<not> i < n \<Longrightarrow> syncSpeedLoop st n i remain tr = tr @ [Out ''OK'']"
  by (subst syncSpeedLoop.simps) (simp add: println_def)

lemma syncSpeedLoop_turn:
  assumes "i < n" and "syncSpeedPair (\<not> i < n - 1) remain = Some (sid, speed, remain')"
    and "0 \<le> sid" and "sid \<le> 253"
  shows "syncSpeedLoop st n i remain tr =
    (if st (tr @ [Bus (EnableTorque sid 1) (st tr (EnableTorque sid 1)), Delay 2000])
          (WriteSpe sid (clamp SPEED_MIN SPEED_MAX speed)) = - 1
     then tr @ [Bus (EnableTorque sid 1) (st tr (EnableTorque sid 1)), Delay 2000,
                Bus (WriteSpe sid (clamp SPEED_MIN SPEED_MAX speed)) (- 1), Out ''ERROR'']
     else syncSpeedLoop st n (i + 1) remain'
            (tr @ [Bus (EnableTorque sid 1) (st tr (EnableTorque sid 1)), Delay 2000,
                   Bus (WriteSpe sid (clamp SPEED_MIN SPEED_MAX speed))
                     (st (tr @ [Bus (EnableTorque sid 1) (st tr (EnableTorque sid 1)), Delay 2000])
                        (WriteSpe sid (clamp SPEED_MIN SPEED_MAX speed))),
                   Delay 300]))"
  using assms syncSpeedLoop_step [OF assms(1), of st remain tr] by (simp add: Let_def)

lemma processCommand_SYNC_SPEED_1_a_b:
  "processCommand st ''SYNC_SPEED 1 a b'' = syncSpeedLoop st 1 0 ''a b'' []"
proof -
  have "commandName ''SYNC_SPEED 1 a b'' = ''SYNC_SPEED''"
    and "argumentTail ''SYNC_SPEED 1 a b'' = ''1'' @ CHR '' '' # ''a b''"
    and "toInt ''1'' = 1" and "trim ''a b'' = ''a b''"
    by code_simp+
  moreover have "CHR '' '' \<notin> set ''1''" by simp
  ultimately show ?thesis
    by (simp add: processCommand_tokens dispatch_def handleSyncSpeed_split del: append.simps)
qed

lemma syncSpeed_1_a_b:
  "busCalls (processCommand st ''SYNC_SPEED 1 a b'') = [EnableTorque 0 1, WriteSpe 0 0]"
proof -
  have pair: "syncSpeedPair (\<not> (0::int) < 1 - 1) ''a b'' = Some (0, 0, [])"
    by code_simp
  have c: "clamp SPEED_MIN SPEED_MAX 0 = 0"
    by code_simp
  show ?thesis
    unfolding processCommand_SYNC_SPEED_1_a_b
    by (subst syncSpeedLoop_turn [OF _ pair]) (simp_all add: c syncSpeedLoop_end)
qed

lemma handleSyncMove_tuples:
  assumes "CHR '' '' \<notin> set a" and "1 \<le> toInt a" and "toInt a \<le> 12"
  shows "handleSyncMove st (a @ CHR '' '' # rest) =
    (case syncMoveTuples (nat (toInt a)) (trim rest) of
       None \<Rightarrow> [Out ''ERROR: not enough arguments for SYNC_MOVE'']
     | Some ts \<Rightarrow>
         (let c = SyncWritePosEx (map (\<lambda>(sid, pos, speed, acc). uint8_t sid) ts) (toInt a)
                    (map (\<lambda>(sid, pos, speed, acc). clamp 0 4095 pos) ts)
                    (map (\<lambda>(sid, pos, speed, acc). clamp 0 4095 speed) ts)
                    (map (\<lambda>(sid, pos, speed, acc). clamp 0 255 acc) ts)
          in [Bus c (st [] c), Out ''OK'']))"
proof -
  have "handleSyncMove st (a @ CHR '' '' # rest) =
      syncMoveLoop st (toInt a) 0 (trim rest) [] [] [] []"
    using assms by (simp add: handleSyncMove_split)
  moreover have "0 \<le> toInt a" using assms by simp
  ultimately show ?thesis
    by (simp add: syncMoveLoop_tuples Let_def split: option.splits)
qed

lemma count_not_a_number:
  assumes "CHR '' '' \<notin> set a" and "\<not> hasNumber a"
  shows "handleSyncMove st (a @ CHR '' '' # rest) = [Out ''ERROR: n out of range'']"
    and "handleSyncSpeed st (a @ CHR '' '' # rest) = [Out ''ERROR: n out of range'']"
  using assms by (simp_all add: handleSyncMove_split handleSyncSpeed_split toInt_no_number)

text \<open>
  C9, as amended. Each of the five commands with a usage line prints it exactly when its
  tail lacks a delimiter it needs: MOVE when the tail has fewer than three spaces, SET_ID,
  SPEED, SYNC_MOVE and SYNC_SPEED when it has none; a tuple of SYNC_MOVE cannot be cut
  exactly when fewer than three spaces are left, a pair of SYNC_SPEED exactly when none is.
  What the fields hold plays no part. Every field is read with \<open>toInt\<close>, and a field that
  does not start with a number reads as 0. The command then goes on with that value: MOVE,
  SET_ID and SPEED make their bus calls with it (ID 0 is a valid ID), and so do SYNC_MOVE
  and SYNC_SPEED for the fields of their tuples (\<^verbatim>\<open>MOVE a b c d\<close> sends ID 0, position
  0, speed 0, acceleration 0). The one field that stops a command when it reads as 0 is
  the count of SYNC_MOVE and SYNC_SPEED: the line is then \<^verbatim>\<open>ERROR: n out of range\<close>, not
  a usage line, and no bus call is made.
\<close>

theorem usage_error_only_for_missing_delimiter:
  "(''ERROR: MOVE usage: MOVE <id> <pos> <speed> <acc>'' \<in> set (outLines (handleMove st args))
      \<longleftrightarrow> countSpaces args < 3) \<and>
   (''ERROR: SET_ID usage: SET_ID <oldId> <newId>'' \<in> set (outLines (handleSetID st args))
      \<longleftrightarrow> countSpaces args = 0) \<and>
   (''ERROR: SPEED usage: SPEED <id> <speed>'' \<in> set (outLines (handleSpeed st args))
      \<longleftrightarrow> countSpaces args = 0) \<and>
   (''ERROR: SYNC_MOVE usage'' \<in> set (outLines (handleSyncMove st args))
      \<longleftrightarrow> countSpaces args = 0) \<and>
   (''ERROR: SYNC_SPEED usage'' \<in> set (outLines (handleSyncSpeed st args))
      \<longleftrightarrow> countSpaces args = 0) \<and>
   (\<not> hasNumber field \<longrightarrow> toInt field = 0) \<and>
   (CHR '' '' \<notin> set a \<and> CHR '' '' \<notin> set b \<and> CHR '' '' \<notin> set c \<longrightarrow>
      handleMove st (a @ CHR '' '' # b @ CHR '' '' # c @ CHR '' '' # d) =
        (if toInt a < 0 \<or> 253 < toInt a then [Out ''ERROR: invalid ID'']
         else [Bus (WritePosEx (toInt a) (clamp 0 4095 (toInt b)) (clamp 0 4095 (toInt c))
                      (clamp 0 255 (toInt d)))
                 (st [] (WritePosEx (toInt a) (clamp 0 4095 (toInt b)) (clamp 0 4095 (toInt c))
                      (clamp 0 255 (toInt d)))),
               Out ''OK''])) \<and>
   (CHR '' '' \<notin> set a \<and> 0 \<le> toInt a \<and> toInt a \<le> 253 \<and> 0 \<le> toInt b \<and> toInt b \<le> 253 \<longrightarrow>
      (\<exists>u w l. handleSetID st (a @ CHR '' '' # b) =
         [Bus (UnLockEprom (toInt a)) u, Bus (WriteByte (toInt a) SMS_STS_ID (toInt b)) w,
          Bus (LockEprom (toInt b)) l,
          Out (if w \<noteq> 0 then ''OK'' else ''ERROR: write ID fail'')])) \<and>
   (CHR '' '' \<notin> set a \<and> 0 \<le> toInt a \<and> toInt a \<le> 253 \<longrightarrow>
      (\<exists>e r. handleSpeed st (a @ CHR '' '' # b) =
         [Bus (EnableTorque (toInt a) 1) e, Delay 2000,
          Bus (WriteSpe (toInt a) (clamp SPEED_MIN SPEED_MAX (toInt b))) r,
          Out (if r \<noteq> - 1 then ''OK'' else ''ERROR'')])) \<and>
   (syncMoveTuple remain = None \<longleftrightarrow> countSpaces remain < 3) \<and>
   (CHR '' '' \<notin> set a \<and> CHR '' '' \<notin> set b \<and> CHR '' '' \<notin> set c \<and> CHR '' '' \<notin> set d \<longrightarrow>
      syncMoveTuple (a @ CHR '' '' # b @ CHR '' '' # c @ CHR '' '' # d) =
        Some (toInt a, toInt b, toInt c, toInt d, []) \<and>
      syncMoveTuple (a @ CHR '' '' # b @ CHR '' '' # c @ CHR '' '' # d @ CHR '' '' # rest) =
        Some (toInt a, toInt b, toInt c, toInt d, trim rest)) \<and>
   (CHR '' '' \<notin> set a \<and> 1 \<le> toInt a \<and> toInt a \<le> 12 \<longrightarrow>
      handleSyncMove st (a @ CHR '' '' # rest) =
        (case syncMoveTuples (nat (toInt a)) (trim rest) of
           None \<Rightarrow> [Out ''ERROR: not enough arguments for SYNC_MOVE'']
         | Some ts \<Rightarrow>
             (let c = SyncWritePosEx (map (\<lambda>(sid, pos, speed, acc). uint8_t sid) ts) (toInt a)
                        (map (\<lambda>(sid, pos, speed, acc). clamp 0 4095 pos) ts)
                        (map (\<lambda>(sid, pos, speed, acc). clamp 0 4095 speed) ts)
                        (map (\<lambda>(sid, pos, speed, acc). clamp 0 255 acc) ts)
              in [Bus c (st [] c), Out ''OK'']))) \<and>
   (syncSpeedPair lastTurn remain = None \<longleftrightarrow> countSpaces remain = 0) \<and>
   (CHR '' '' \<notin> set a \<and> (lastTurn \<or> CHR '' '' \<notin> set (trim rest)) \<longrightarrow>
      syncSpeedPair lastTurn (a @ CHR '' '' # rest) = Some (toInt a, toInt (trim rest), [])) \<and>
   (CHR '' '' \<notin> set a \<and> CHR '' '' \<notin> set b \<and> trim rest = b @ CHR '' '' # rest' \<longrightarrow>
      syncSpeedPair False (a @ CHR '' '' # rest) = Some (toInt a, toInt b, trim rest')) \<and>
   (CHR '' '' \<notin> set a \<and> 1 \<le> toInt a \<and> toInt a \<le> 12 \<longrightarrow>
      handleSyncSpeed st (a @ CHR '' '' # rest) = syncSpeedLoop st (toInt a) 0 (trim rest) []) \<and>
   (i < n \<and> syncSpeedPair (\<not> i < n - 1) remain = Some (sid, speed, remain') \<and>
    0 \<le> sid \<and> sid \<le> 253 \<longrightarrow>
      syncSpeedLoop st n i remain tr =
        (if st (tr @ [Bus (EnableTorque sid 1) (st tr (EnableTorque sid 1)), Delay 2000])
              (WriteSpe sid (clamp SPEED_MIN SPEED_MAX speed)) = - 1
         then tr @ [Bus (EnableTorque sid 1) (st tr (EnableTorque sid 1)), Delay 2000,
                    Bus (WriteSpe sid (clamp SPEED_MIN SPEED_MAX speed)) (- 1), Out ''ERROR'']
         else syncSpeedLoop st n (i + 1) remain'
                (tr @ [Bus (EnableTorque sid 1) (st tr (EnableTorque sid 1)), Delay 2000,
                       Bus (WriteSpe sid (clamp SPEED_MIN SPEED_MAX speed))
                         (st (tr @ [Bus (EnableTorque sid 1) (st tr (EnableTorque sid 1)),
                                    Delay 2000])
                            (WriteSpe sid (clamp SPEED_MIN SPEED_MAX speed))),
                       Delay 300]))) \<and>
   (i < n \<and> syncSpeedPair (\<not> i < n - 1) remain = None \<longrightarrow>
      syncSpeedLoop st n i remain tr = tr @ [Out ''ERROR: not enough args'']) \<and>
   (i < n \<and> syncSpeedPair (\<not> i < n - 1) remain = Some (sid, speed, remain') \<and>
    (sid < 0 \<or> 253 < sid) \<longrightarrow>
      syncSpeedLoop st n i remain tr = tr @ [Out ''ERROR: invalid ID'']) \<and>
   (\<not> i < n \<longrightarrow> syncSpeedLoop st n i remain tr = tr @ [Out ''OK'']) \<and>
   (CHR '' '' \<notin> set a \<and> \<not> hasNumber a \<longrightarrow>
      handleSyncMove st (a @ CHR '' '' # rest) = [Out ''ERROR: n out of range''] \<and>
      handleSyncSpeed st (a @ CHR '' '' # rest) = [Out ''ERROR: n out of range'']) \<and>
   processCommand st ''MOVE a b c d'' =
     [Bus (WritePosEx 0 0 0 0) (st [] (WritePosEx 0 0 0 0)), Out ''OK''] \<and>
   busCalls (processCommand st ''SET_ID a b'') =
     [UnLockEprom 0, WriteByte 0 SMS_STS_ID 0, LockEprom 0] \<and>
   busCalls (processCommand st ''SPEED a b'') = [EnableTorque 0 1, WriteSpe 0 0] \<and>
   busCalls (processCommand st ''SYNC_MOVE 1 a b c d'') = [SyncWritePosEx [0] 1 [0] [0] [0]] \<and>
   busCalls (processCommand st ''SYNC_SPEED 1 a b'') = [EnableTorque 0 1, WriteSpe 0 0]"
proof (intro conjI impI; (elim conjE)?)
  show "''ERROR: MOVE usage: MOVE <id> <pos> <speed> <acc>'' \<in> set (outLines (handleMove st args))
      \<longleftrightarrow> countSpaces args < 3"
    by (rule handleMove_usage_iff)
  show "''ERROR: SET_ID usage: SET_ID <oldId> <newId>'' \<in> set (outLines (handleSetID st args))
      \<longleftrightarrow> countSpaces args = 0"
    by (rule handleSetID_usage_iff)
  show "''ERROR: SPEED usage: SPEED <id> <speed>'' \<in> set (outLines (handleSpeed st args))
      \<longleftrightarrow> countSpaces args = 0"
    by (rule handleSpeed_usage_iff)
  show "''ERROR: SYNC_MOVE usage'' \<in> set (outLines (handleSyncMove st args))
      \<longleftrightarrow> countSpaces args = 0"
    by (rule handleSyncMove_usage_iff)
  show "''ERROR: SYNC_SPEED usage'' \<in> set (outLines (handleSyncSpeed st args))
      \<longleftrightarrow> countSpaces args = 0"
    by (rule handleSyncSpeed_usage_iff)
  show "toInt field = 0" if "\<not> hasNumber field"
    using that by (rule toInt_no_number)
  show "handleMove st (a @ CHR '' '' # b @ CHR '' '' # c @ CHR '' '' # d) =
        (if toInt a < 0 \<or> 253 < toInt a then [Out ''ERROR: invalid ID'']
         else [Bus (WritePosEx (toInt a) (clamp 0 4095 (toInt b)) (clamp 0 4095 (toInt c))
                      (clamp 0 255 (toInt d)))
                 (st [] (WritePosEx (toInt a) (clamp 0 4095 (toInt b)) (clamp 0 4095 (toInt c))
                      (clamp 0 255 (toInt d)))),
               Out ''OK''])"
    if "CHR '' '' \<notin> set a" "CHR '' '' \<notin> set b" "CHR '' '' \<notin> set c"
    using that by (rule handleMove_split)
  show "\<exists>u w l. handleSetID st (a @ CHR '' '' # b) =
         [Bus (UnLockEprom (toInt a)) u, Bus (WriteByte (toInt a) SMS_STS_ID (toInt b)) w,
          Bus (LockEprom (toInt b)) l,
          Out (if w \<noteq> 0 then ''OK'' else ''ERROR: write ID fail'')]"
    if "CHR '' '' \<notin> set a" "0 \<le> toInt a" "toInt a \<le> 253" "0 \<le> toInt b" "toInt b \<le> 253"
    using that by (simp add: handleSetID_split uint8_t_id Let_def)
  show "\<exists>e r. handleSpeed st (a @ CHR '' '' # b) =
         [Bus (EnableTorque (toInt a) 1) e, Delay 2000,
          Bus (WriteSpe (toInt a) (clamp SPEED_MIN SPEED_MAX (toInt b))) r,
          Out (if r \<noteq> - 1 then ''OK'' else ''ERROR'')]"
    if "CHR '' '' \<notin> set a" "0 \<le> toInt a" "toInt a \<le> 253"
    using that by (simp add: handleSpeed_split Let_def)
  show "syncMoveTuple remain = None \<longleftrightarrow> countSpaces remain < 3"
    by (rule syncMoveTuple_None_iff)
  show "syncMoveTuple (a @ CHR '' '' # b @ CHR '' '' # c @ CHR '' '' # d) =
        Some (toInt a, toInt b, toInt c, toInt d, [])"
    if "CHR '' '' \<notin> set a" "CHR '' '' \<notin> set b" "CHR '' '' \<notin> set c" "CHR '' '' \<notin> set d"
    using that by (rule syncMoveTuple_fields(1))
  show "syncMoveTuple (a @ CHR '' '' # b @ CHR '' '' # c @ CHR '' '' # d @ CHR '' '' # rest) =
        Some (toInt a, toInt b, toInt c, toInt d, trim rest)"
    if "CHR '' '' \<notin> set a" "CHR '' '' \<notin> set b" "CHR '' '' \<notin> set c" "CHR '' '' \<notin> set d"
    using that by (rule syncMoveTuple_fields(2))
  show "handleSyncMove st (a @ CHR '' '' # rest) =
        (case syncMoveTuples (nat (toInt a)) (trim rest) of
           None \<Rightarrow> [Out ''ERROR: not enough arguments for SYNC_MOVE'']
         | Some ts \<Rightarrow>
             (let c = SyncWritePosEx (map (\<lambda>(sid, pos, speed, acc). uint8_t sid) ts) (toInt a)
                        (map (\<lambda>(sid, pos, speed, acc). clamp 0 4095 pos) ts)
                        (map (\<lambda>(sid, pos, speed, acc). clamp 0 4095 speed) ts)
                        (map (\<lambda>(sid, pos, speed, acc). clamp 0 255 acc) ts)
              in [Bus c (st [] c), Out ''OK'']))"
    if "CHR '' '' \<notin> set a" "1 \<le> toInt a" "toInt a \<le> 12"
    using that by (rule handleSyncMove_tuples)
  show "syncSpeedPair lastTurn remain = None \<longleftrightarrow> countSpaces remain = 0"
    by (rule syncSpeedPair_None_iff)
  show "syncSpeedPair lastTurn (a @ CHR '' '' # rest) = Some (toInt a, toInt (trim rest), [])"
    if "CHR '' '' \<notin> set a" "lastTurn \<or> CHR '' '' \<notin> set (trim rest)"
    using that by (rule syncSpeedPair_fields(1))
  show "syncSpeedPair False (a @ CHR '' '' # rest) = Some (toInt a, toInt b, trim rest')"
    if "CHR '' '' \<notin> set a" "CHR '' '' \<notin> set b" "trim rest = b @ CHR '' '' # rest'"
    using that by (rule syncSpeedPair_fields(2))
  show "handleSyncSpeed st (a @ CHR '' '' # rest) = syncSpeedLoop st (toInt a) 0 (trim rest) []"
    if "CHR '' '' \<notin> set a" "1 \<le> toInt a" "toInt a \<le> 12"
    using that by (simp add: handleSyncSpeed_split)
  show "syncSpeedLoop st n i remain tr =
        (if st (tr @ [Bus (EnableTorque sid 1) (st tr (EnableTorque sid 1)), Delay 2000])
              (WriteSpe sid (clamp SPEED_MIN SPEED_MAX speed)) = - 1
         then tr @ [Bus (EnableTorque sid 1) (st tr (EnableTorque sid 1)), Delay 2000,
                    Bus (WriteSpe sid (clamp SPEED_MIN SPEED_MAX speed)) (- 1), Out ''ERROR'']
         else syncSpeedLoop st n (i + 1) remain'
                (tr @ [Bus (EnableTorque sid 1) (st tr (EnableTorque sid 1)), Delay 2000,
                       Bus (WriteSpe sid (clamp SPEED_MIN SPEED_MAX speed))
                         (st (tr @ [Bus (EnableTorque sid 1) (st tr (EnableTorque sid 1)),
                                    Delay 2000])
                            (WriteSpe sid (clamp SPEED_MIN SPEED_MAX speed))),
                       Delay 300]))"
    if "i < n" "syncSpeedPair (\<not> i < n - 1) remain = Some (sid, speed, remain')"
      "0 \<le> sid" "sid \<le> 253"
    using that by (rule syncSpeedLoop_turn)
  show "syncSpeedLoop st n i remain tr = tr @ [Out ''ERROR: not enough args'']"
    if "i < n" "syncSpeedPair (\<not> i < n - 1) remain = None"
    using that syncSpeedLoop_step [of i n st remain tr] by simp
  show "syncSpeedLoop st n i remain tr = tr @ [Out ''ERROR: invalid ID'']"
    if "i < n" "syncSpeedPair (\<not> i < n - 1) remain = Some (sid, speed, remain')"
      "sid < 0 \<or> 253 < sid"
    using that syncSpeedLoop_step [of i n st remain tr] by auto
  show "syncSpeedLoop st n i remain tr = tr @ [Out ''OK'']" if "\<not> i < n"
    using that by (rule syncSpeedLoop_end)
  show "handleSyncMove st (a @ CHR '' '' # rest) = [Out ''ERROR: n out of range'']"
    if "CHR '' '' \<notin> set a" "\<not> hasNumber a"
    using that by (rule count_not_a_number(1))
  show "handleSyncSpeed st (a @ CHR '' '' # rest) = [Out ''ERROR: n out of range'']"
    if "CHR '' '' \<notin> set a" "\<not> hasNumber a"
    using that by (rule count_not_a_number(2))
  show "processCommand st ''MOVE a b c d'' =
     [Bus (WritePosEx 0 0 0 0) (st [] (WritePosEx 0 0 0 0)), Out ''OK'']"
    by code_simp
  show "busCalls (processCommand st ''SET_ID a b'') =
     [UnLockEprom 0, WriteByte 0 SMS_STS_ID 0, LockEprom 0]"
    by code_simp
  show "busCalls (processCommand st ''SPEED a b'') = [EnableTorque 0 1, WriteSpe 0 0]"
    by code_simp
  show "busCalls (processCommand st ''SYNC_MOVE 1 a b c d'') = [SyncWritePosEx [0] 1 [0] [0] [0]]"
    by code_simp
  show "busCalls (processCommand st ''SYNC_SPEED 1 a b'') = [EnableTorque 0 1, WriteSpe 0 0]"
    by (rule syncSpeed_1_a_b)
qed

theorem usage_error_only_for_missing_delimiter_witness:
  "countSpaces ''1 2 3'' = 2 \<and>
   outLines (handleMove (\<lambda>tr c. 0) ''1 2 3'') =
     [''ERROR: MOVE usage: MOVE <id> <pos> <speed> <acc>''] \<and>
   \<not> hasNumber ''x12'' \<and> toInt ''x12'' = 0 \<and>
   CHR '' '' \<notin> set ''x'' \<and> CHR '' '' \<notin> set ''y'' \<and> CHR '' '' \<notin> set ''z'' \<and>
   toInt ''x'' = 0 \<and> toInt ''y'' = 0 \<and>
   handleMove (\<lambda>tr c. 0) ''x y z w'' = [Bus (WritePosEx 0 0 0 0) 0, Out ''OK''] \<and>
   busCalls (handleSetID (\<lambda>tr c. 0) ''x y'') =
     [UnLockEprom 0, WriteByte 0 SMS_STS_ID 0, LockEprom 0] \<and>
   busCalls (handleSpeed (\<lambda>tr c. 0) ''x y'') = [EnableTorque 0 1, WriteSpe 0 0] \<and>
   handleSyncMove (\<lambda>tr c. 0) ''x 1 2 3 4'' = [Out ''ERROR: n out of range''] \<and>
   handleSyncSpeed (\<lambda>tr c. 0) ''x 1 2'' = [Out ''ERROR: n out of range'']"
proof -
  note inst = usage_error_only_for_missing_delimiter [where st = "\<lambda>tr c. 0"
      and args = "''1 2 3''" and field = "''x12''" and a = "''x''" and b = "''y''"
      and c = "''z''" and d = "''w''"]
  have nn: "\<not> hasNumber ''x12''" "\<not> hasNumber ''x''"
    and z: "toInt ''x'' = 0" "toInt ''y'' = 0" "toInt ''z'' = 0" "toInt ''w'' = 0"
    and cl: "clamp 0 4095 0 = 0" "clamp 0 255 0 = 0" "clamp SPEED_MIN SPEED_MAX 0 = 0"
    and cs: "countSpaces ''1 2 3'' = 2"
    by code_simp+
  have s: "CHR '' '' \<notin> set ''x''" "CHR '' '' \<notin> set ''y''" "CHR '' '' \<notin> set ''z''"
    by simp_all
  have u: "''ERROR: MOVE usage: MOVE <id> <pos> <speed> <acc>''
      \<in> set (outLines (handleMove (\<lambda>tr c. 0) ''1 2 3''))"
    using inst cs by simp
  moreover have "outLines (handleMove (\<lambda>tr c. 0) ''1 2 3'') =
     [''ERROR: MOVE usage: MOVE <id> <pos> <speed> <acc>'']"
    by code_simp
  moreover have "toInt ''x12'' = 0"
    using inst nn(1) by blast
  moreover have "handleMove (\<lambda>tr c. 0) (''x'' @ CHR '' '' # ''y'' @ CHR '' '' # ''z'' @ CHR '' '' # ''w'') =
      [Bus (WritePosEx 0 0 0 0) 0, Out ''OK'']"
    using inst s by (simp add: z cl)
  moreover have "busCalls (handleSetID (\<lambda>tr c. 0) (''x'' @ CHR '' '' # ''y'')) =
     [UnLockEprom 0, WriteByte 0 SMS_STS_ID 0, LockEprom 0]"
  proof -
    have "\<exists>u w l. handleSetID (\<lambda>tr c. 0) (''x'' @ CHR '' '' # ''y'') =
         [Bus (UnLockEprom (toInt ''x'')) u, Bus (WriteByte (toInt ''x'') SMS_STS_ID (toInt ''y'')) w,
          Bus (LockEprom (toInt ''y'')) l,
          Out (if w \<noteq> 0 then ''OK'' else ''ERROR: write ID fail'')]"
      using inst s by (simp add: z)
    then show ?thesis by (auto simp: z)
  qed
  moreover have "busCalls (handleSpeed (\<lambda>tr c. 0) (''x'' @ CHR '' '' # ''y'')) =
      [EnableTorque 0 1, WriteSpe 0 0]"
  proof -
    have "\<exists>e r. handleSpeed (\<lambda>tr c. 0) (''x'' @ CHR '' '' # ''y'') =
         [Bus (EnableTorque (toInt ''x'') 1) e, Delay 2000,
          Bus (WriteSpe (toInt ''x'') (clamp SPEED_MIN SPEED_MAX (toInt ''y''))) r,
          Out (if r \<noteq> - 1 then ''OK'' else ''ERROR'')]"
      using inst s by (simp add: z)
    then show ?thesis by (auto simp: z cl)
  qed
  moreover have "handleSyncMove (\<lambda>tr c. 0) (''x'' @ CHR '' '' # ''1 2 3 4'') =
      [Out ''ERROR: n out of range'']"
    using usage_error_only_for_missing_delimiter [where st = "\<lambda>tr c. 0" and a = "''x''"
        and rest = "''1 2 3 4''"] s nn(2) by simp
  moreover have "handleSyncSpeed (\<lambda>tr c. 0) (''x'' @ CHR '' '' # ''1 2'') =
      [Out ''ERROR: n out of range'']"
    using usage_error_only_for_missing_delimiter [where st = "\<lambda>tr c. 0" and a = "''x''"
        and rest = "''1 2''"] s nn(2) by simp
  ultimately show ?thesis
    using cs nn(1) s z by simp
qed

text \<open>
  The claim as the spec words it fails at the count of SYNC_MOVE (and of SYNC_SPEED): in
  \<^verbatim>\<open>SYNC_MOVE x 1 2 3 4\<close> no delimiter is missing and the count \<^verbatim>\<open>x\<close> reads as 0, but
  the command does not go on: the range test on the count rejects it.
\<close>

theorem usage_error_count_counterexample:
  "countSpaces ''x 1 2 3 4'' = 4 \<and> toInt ''x'' = 0 \<and>
   processCommand (\<lambda>tr c. 0) ''SYNC_MOVE x 1 2 3 4'' = [Out ''ERROR: n out of range'']"
  by code_simp

section \<open>Device IDs on the bus\<close>

lemmas handler_unfold = Let_def call_def println_def delay_def delayMicroseconds_def

lemma handlePing_idsValid: "idsValid (handlePing st args)"
  by (auto simp: handlePing_def handler_unfold validId_def uint8_t_id)

lemma handleSetID_idsValid: "idsValid (handleSetID st args)"
  by (auto simp: handleSetID_def handler_unfold validId_def uint8_t_id)

lemma handleSetServo_idsValid: "idsValid (handleSetServo st args)"
  by (auto simp: handleSetServo_def handler_unfold validId_def uint8_t_id)

lemma handleSetWheel_idsValid: "idsValid (handleSetWheel st args)"
  by (auto simp: handleSetWheel_def handler_unfold validId_def uint8_t_id)

lemma handleReadMode_idsValid: "idsValid (handleReadMode st args)"
  by (auto simp: handleReadMode_def handler_unfold validId_def uint8_t_id)

lemma handleMove_idsValid: "idsValid (handleMove st args)"
  by (auto simp: handleMove_def handler_unfold validId_def uint8_t_id)

lemma handleReadPos_idsValid: "idsValid (handleReadPos st args)"
  by (auto simp: handleReadPos_def handler_unfold validId_def)

lemma handleSpeed_idsValid: "idsValid (handleSpeed st args)"
  by (auto simp: handleSpeed_def handler_unfold validId_def uint8_t_id)

lemma handleStop_idsValid: "idsValid (handleStop st args)"
  by (auto simp: handleStop_def handler_unfold validId_def uint8_t_id)

lemma handleReadSpeed_idsValid: "idsValid (handleReadSpeed st args)"
  by (auto simp: handleReadSpeed_def handler_unfold validId_def uint8_t_id)

lemma handleEnableTorque_idsValid: "idsValid (handleEnableTorque st args)"
  by (auto simp: handleEnableTorque_def handler_unfold validId_def uint8_t_id)

lemma handleDisableTorque_idsValid: "idsValid (handleDisableTorque st args)"
  by (auto simp: handleDisableTorque_def handler_unfold validId_def uint8_t_id)

lemma handleReadLoad_idsValid: "idsValid (handleReadLoad st args)"
  by (auto simp: handleReadLoad_def handler_unfold validId_def)

lemma handleReadVoltage_idsValid: "idsValid (handleReadVoltage st args)"
  by (auto simp: handleReadVoltage_def handler_unfold validId_def)

lemma handleReadTemp_idsValid: "idsValid (handleReadTemp st args)"
  by (auto simp: handleReadTemp_def handler_unfold validId_def)

lemma handleSyncSpeed_idsValid: "idsValid (handleSyncSpeed st args)"
  using handleSyncSpeed_trace [of st args] by (auto simp: idsValid_append)

lemma roster_valid: "list_all validId (take k SERVO_IDS)"
proof -
  have "list_all validId SERVO_IDS"
    by (simp add: SERVO_IDS_def validId_def)
  then show ?thesis
    by (auto simp: list_all_iff dest: in_set_takeD)
qed

lemma pairs_idsValid:
  "list_all validId xs \<Longrightarrow>
   list_all (\<lambda>c. list_all validId (callIds c))
     (concat (map (\<lambda>j. [EnableTorque j 1, WriteSpe j 0]) xs))"
  by (induction xs) auto

lemma handleStopAll_idsValid: "idsValid (handleStopAll st)"
proof -
  have "0 \<le> (0::int)" and "0 \<le> SERVO_COUNT"
    by (simp_all add: SERVO_COUNT_def)
  from stopAllLoop_trace [OF this, of st "[]"]
  obtain ext k where "stopAllLoop st 0 [] = [] @ ext"
    and "busCalls ext =
        concat (map (\<lambda>j. [EnableTorque j 1, WriteSpe j 0]) (take k (drop (nat 0) SERVO_IDS)))"
    by blast
  then show ?thesis
    using pairs_idsValid [OF roster_valid, of k]
    by (simp add: handleStopAll_def idsValid_def)
qed

lemma dispatch_idsValid:
  assumes "cmdName \<noteq> ''SYNC_MOVE''" and "cmdName \<noteq> ''SCAN_ID''" and "cmdName \<noteq> ''SCAN_POS''"
  shows "idsValid (dispatch st cmdName args)"
  using assms
  by (simp add: dispatch_def println_def handlePing_idsValid handleSetID_idsValid
      handleSetServo_idsValid handleSetWheel_idsValid handleReadMode_idsValid
      handleMove_idsValid handleReadPos_idsValid handleSpeed_idsValid handleSyncSpeed_idsValid
      handleStop_idsValid handleStopAll_idsValid handleReadSpeed_idsValid
      handleEnableTorque_idsValid handleDisableTorque_idsValid handleReadLoad_idsValid
      handleReadVoltage_idsValid handleReadTemp_idsValid)

lemma processCommand_idsValid:
  assumes "commandName command \<notin> set [''SYNC_MOVE'', ''SCAN_ID'', ''SCAN_POS'']"
  shows "idsValid (processCommand st command)"
proof (cases "commandName command = []")
  case True
  then show ?thesis by (simp add: processCommand_noname)
next
  case False
  then show ?thesis
    using assms by (simp add: processCommand_tokens dispatch_idsValid)
qed

lemma processCommand_invalid_id:
  assumes "commandName command \<in> set [''PING'', ''SET_SERVO'', ''SET_WHEEL'', ''READ_MODE'',
      ''READ_POS'', ''STOP'', ''READ_SPEED'', ''ENABLE_TORQUE'', ''DISABLE_TORQUE'',
      ''READ_LOAD'', ''READ_VOLTAGE'', ''READ_TEMP'']"
    and "toInt (argumentTail command) < 0 \<or> 253 < toInt (argumentTail command)"
  shows "processCommand st command \<in> set [[Out ''ERROR: Invalid ID''], [Out ''ERROR: invalid ID'']]"
proof -
  from assms(1) have "commandName command \<noteq> []" by auto
  then have "processCommand st command = dispatch st (commandName command) (argumentTail command)"
    by (rule processCommand_tokens)
  then show ?thesis
    using assms
    by (auto simp: dispatch_def println_def Let_def handlePing_def handleSetServo_def
        handleSetWheel_def handleReadMode_def handleReadPos_def handleStop_def
        handleReadSpeed_def handleEnableTorque_def handleDisableTorque_def handleReadLoad_def
        handleReadVoltage_def handleReadTemp_def)
qed

lemma processCommand_SCAN_ID_255:
  "processCommand st ''SCAN_ID 255'' =
     scanIDLoop st 253 255 0 [Out ''SCAN_ID from 253 to 255'']"
proof -
  have "commandName ''SCAN_ID 255'' = ''SCAN_ID''" and "argumentTail ''SCAN_ID 255'' = ''255''"
    by code_simp+
  then have "processCommand st ''SCAN_ID 255'' = handleScanID st ''255''"
    by (simp add: processCommand_tokens dispatch_def)
  moreover have "scanNormalize (scanParse ''255'') = (253, 255)"
    and "printInt 255 = ''255''"
    by code_simp+
  ultimately show ?thesis
    by (simp add: handleScanID_def println_def printInt_253)
qed

text \<open>
  C1. The code breaks the claim. Every command but SYNC_MOVE and the two scans keeps its
  device IDs in 0..253 (lemma \<open>processCommand_idsValid\<close>) and answers an ID outside with
  an error line and no bus call (lemma \<open>processCommand_invalid_id\<close>). SYNC_MOVE never
  tests the ID of a tuple, where its sibling SYNC_SPEED does: for every bus the line
  \<^verbatim>\<open>SYNC_MOVE 1 254 0 0 0\<close> puts ID 254 on the bus in its batch write and prints
  \<^verbatim>\<open>OK\<close>, while \<^verbatim>\<open>SYNC_SPEED 1 254 0\<close> prints \<^verbatim>\<open>ERROR: invalid ID\<close> and makes no bus
  call. The scans clamp their bounds before they swap them: \<^verbatim>\<open>SCAN_ID 255\<close> pings 253,
  254 and 255.
\<close>

theorem syncMove_sends_unchecked_id:
  "processCommand st ''SYNC_MOVE 1 254 0 0 0'' =
     [Bus (SyncWritePosEx [254] 1 [0] [0] [0]) (st [] (SyncWritePosEx [254] 1 [0] [0] [0])),
      Out ''OK''] \<and>
   \<not> idsValid (processCommand st ''SYNC_MOVE 1 254 0 0 0'') \<and>
   processCommand st ''SYNC_SPEED 1 254 0'' = [Out ''ERROR: invalid ID''] \<and>
   busCalls (processCommand st ''SCAN_ID 255'') = [Ping 253, Ping 254, Ping 255] \<and>
   \<not> idsValid (processCommand st ''SCAN_ID 255'')"
proof -
  have m: "processCommand st ''SYNC_MOVE 1 254 0 0 0'' =
     [Bus (SyncWritePosEx [254] 1 [0] [0] [0]) (st [] (SyncWritePosEx [254] 1 [0] [0] [0])),
      Out ''OK'']"
    by code_simp
  have v: "\<not> validId 254"
    by (simp add: validId_def)
  have sp: "processCommand st ''SYNC_SPEED 1 254 0'' = [Out ''ERROR: invalid ID'']"
    by code_simp
  have "busCalls (scanIDLoop st 253 255 0 [Out ''SCAN_ID from 253 to 255'']) =
      busCalls [Out ''SCAN_ID from 253 to 255''] @ map (\<lambda>i. Ping (uint8_t i)) [253..255]"
    by (rule scanIDLoop_full) (simp_all add: INT_MAX_def)
  moreover have "map (\<lambda>i. Ping (uint8_t i)) [253..255] = [Ping 253, Ping 254, Ping 255]"
    by code_simp
  ultimately have sc: "busCalls (processCommand st ''SCAN_ID 255'') =
      [Ping 253, Ping 254, Ping 255]"
    by (simp add: processCommand_SCAN_ID_255)
  from m v sp sc show ?thesis
    by (simp add: idsValid_def)
qed

theorem syncMove_sends_unchecked_id_witness:
  "busCalls (processCommand (\<lambda>tr c. 0) ''SYNC_MOVE 1 254 0 0 0'') =
     [SyncWritePosEx [254] 1 [0] [0] [0]] \<and>
   outLines (processCommand (\<lambda>tr c. 0) ''SYNC_MOVE 1 254 0 0 0'') = [''OK''] \<and>
   busCalls (processCommand (\<lambda>tr c. 0) ''SYNC_SPEED 1 254 0'') = [] \<and>
   busCalls (processCommand (\<lambda>tr c. 0) ''SCAN_ID 255'') = [Ping 253, Ping 254, Ping 255]"
  using syncMove_sends_unchecked_id [of "\<lambda>tr c. 0"] by simp

end
